theory Spec2Isabelle
  imports Main "HOL-Library.AList"
begin

section \<open>The platform: calendar dates and ISO date strings\<close>

text \<open>
  The program (\<^verbatim>\<open>src/index.tsx\<close>) keys its records by the string
  \<^verbatim>\<open>new Date().toISOString().split("T")[0]\<close> and walks backwards with
  \<^verbatim>\<open>d.setDate(d.getDate() - 1)\<close>. The \<^verbatim>\<open>Date\<close> object belongs to the
  JavaScript platform, not to the repository; it is modelled after ECMA-262:

  \<^item> a time value is counted in minutes since 1970-01-01T00:00Z, an \<open>int\<close> (the
    seconds and milliseconds of the clock play no part in any date computed here); a
    day is a UTC day number, the time value divided by 1440. A time value is in range
    iff it lies within \<open>10^8\<close> days of the epoch, and \<^verbatim>\<open>toISOString\<close> throws a
    \<^verbatim>\<open>RangeError\<close> on a time value out of range;
  \<^item> local time is given by a time zone: a standard offset and the periods of
    daylight-saving time, in which the clocks are one hour ahead (a change of the
    standard offset itself is not modelled). \<^verbatim>\<open>setDate\<close> and \<^verbatim>\<open>getDate\<close> work on
    local time, \<^verbatim>\<open>toISOString\<close> on UTC;
  \<^item> the current instant is a parameter of every function that reads the clock: the
    UTC day number \<open>now\<close> where only today's date string is read, the time value where
    the time of day matters (the streak walk). The monthly chart reads local time through
    a fixed offset \<open>tz\<close>, minutes east of UTC.
\<close>

definition days_from_civil :: "int \<Rightarrow> int \<Rightarrow> int \<Rightarrow> int" where
  "days_from_civil y m d =
     (let y' = (if m \<le> 2 then y - 1 else y);
          era = y' div 400;
          yoe = y' - era * 400;
          doy = (153 * (if m > 2 then m - 3 else m + 9) + 2) div 5 + d - 1;
          doe = yoe * 365 + yoe div 4 - yoe div 100 + doy
      in era * 146097 + doe - 719468)"

definition civil_from_days :: "int \<Rightarrow> int \<times> int \<times> int" where
  "civil_from_days z =
     (let z' = z + 719468;
          era = z' div 146097;
          doe = z' - era * 146097;
          yoe = (doe - doe div 1460 + doe div 36524 - doe div 146096) div 365;
          doy = doe - (365 * yoe + yoe div 4 - yoe div 100);
          mp = (5 * doy + 2) div 153;
          d = doy - (153 * mp + 2) div 5 + 1;
          m = (if mp < 10 then mp + 3 else mp - 9);
          y = yoe + era * 400
      in (if m \<le> 2 then y + 1 else y, m, d))"

text \<open>\<^verbatim>\<open>MakeDay(year, month, date)\<close> of ECMA-262, the month counted from 0 and allowed
  to overflow into the next year.\<close>

definition MakeDay :: "int \<Rightarrow> int \<Rightarrow> int \<Rightarrow> int" where
  "MakeDay year month date =
     days_from_civil (year + month div 12) (month mod 12 + 1) 1 + date - 1"

text \<open>The range of time values, in minutes: \<open>10^8\<close> days on either side of the epoch.\<close>

definition time_in_range :: "int \<Rightarrow> bool" where
  "time_in_range t \<longleftrightarrow> - 144000000000 \<le> t \<and> t \<le> 144000000000"

text \<open>
  A time zone: the standard offset in minutes east of UTC, and the periods of
  daylight-saving time as intervals of time values, the start included and the end
  excluded. \<^verbatim>\<open>LocalTime(t)\<close> is \<open>t + utc_offset z t\<close>. \<^verbatim>\<open>UTC(lt)\<close> is
  \<open>lt - local_offset z lt\<close>: a local time that the clocks show twice is taken as the
  earlier instant, and one that they skip is read with the offset before the change.
\<close>

record zone =
  std_offset :: int
  dst_periods :: "(int \<times> int) list"

definition in_dst :: "zone \<Rightarrow> int \<Rightarrow> bool" where
  "in_dst z t = list_ex (\<lambda>(a, b). a \<le> t \<and> t < b) (dst_periods z)"

definition utc_offset :: "zone \<Rightarrow> int \<Rightarrow> int" where
  "utc_offset z t = std_offset z + (if in_dst z t then 60 else 0)"

definition local_offset :: "zone \<Rightarrow> int \<Rightarrow> int" where
  "local_offset z lt = std_offset z + (if in_dst z (lt - std_offset z - 60) then 60 else 0)"

text \<open>\<^verbatim>\<open>d.setDate(d.getDate() - 1)\<close>: the local date one day back at the same local time
  of day, as a time value again.\<close>

definition setDate_previous :: "zone \<Rightarrow> int \<Rightarrow> int" where
  "setDate_previous z t =
     (let lt = t + utc_offset z t - 1440 in lt - local_offset z lt)"

text \<open>The last decimal digit of a number, and the last \<open>w\<close> digits of a number.\<close>

definition digit_char :: "int \<Rightarrow> char" where
  "digit_char n = ''0123456789'' ! nat (n mod 10)"

fun pad :: "nat \<Rightarrow> int \<Rightarrow> string" where
  "pad 0 n = []"
| "pad (Suc w) n = pad w (n div 10) @ [digit_char n]"

definition year_string :: "int \<Rightarrow> string" where
  "year_string y =
     (if 0 \<le> y \<and> y \<le> 9999 then pad 4 y
      else (if y < 0 then CHR ''-'' else CHR ''+'') # pad 6 \<bar>y\<bar>)"

text \<open>\<^verbatim>\<open>d.toISOString().split("T")[0]\<close> for a time value in range on UTC day \<open>d\<close>.\<close>

definition iso_date :: "int \<Rightarrow> string" where
  "iso_date d =
     (case civil_from_days d of
        (y, m, dd) \<Rightarrow> year_string y @ ''-'' @ pad 2 m @ ''-'' @ pad 2 dd)"

section \<open>Helper functions of the source\<close>

datatype error = RangeError | TypeError

text \<open>\<^verbatim>\<open>getTodayDateString\<close>: the clock's time value is always in range, so
  this call never throws.\<close>

definition getTodayDateString :: "int \<Rightarrow> string" where
  "getTodayDateString now = iso_date now"

definition getMonthFromDateString :: "string \<Rightarrow> string" where
  "getMonthFromDateString dateString = take 7 dateString"

text \<open>
  An object with string keys is an association list with distinct keys, in the
  order in which \<^verbatim>\<open>for ... in\<close> and \<^verbatim>\<open>Object.keys\<close> enumerate it.
  \<^verbatim>\<open>type Records = { [date: string]: { [user: string]: number } }\<close>; chapter counts
  are modelled as integers (the source's \<^verbatim>\<open>number\<close> restricted to integral values).
  An association list holds the own properties of an object. Where the source reads a
  property by a name that a user chose (\<^verbatim>\<open>records[dateStr][user]\<close>,
  \<^verbatim>\<open>totals[user] = 0\<close>, \<^verbatim>\<open>totals.hasOwnProperty\<close>), the properties that the object
  inherits from \<^verbatim>\<open>Object.prototype\<close> are modelled too. A date string never is the
  name of one of them.
\<close>

type_synonym 'v js_obj = "(string \<times> 'v) list"

type_synonym Records = "(int js_obj) js_obj"

text \<open>The names of the properties of \<^verbatim>\<open>Object.prototype\<close>. Each of them reads as a
  function or an object, which is truthy, on an object that has no own property of the
  name.\<close>

definition object_prototype_names :: "string list" where
  "object_prototype_names =
     [''constructor'', ''__defineGetter__'', ''__defineSetter__'', ''hasOwnProperty'',
      ''__lookupGetter__'', ''__lookupSetter__'', ''isPrototypeOf'', ''propertyIsEnumerable'',
      ''toString'', ''valueOf'', ''__proto__'', ''toLocaleString'']"

text \<open>The loop guard \<^verbatim>\<open>records[dateStr] && records[dateStr][user]\<close>: an object is
  truthy, \<^verbatim>\<open>undefined\<close> and the number 0 are falsy; \<^verbatim>\<open>records[dateStr][user]\<close> is the
  own property if there is one and the inherited one otherwise.\<close>

definition has_truthy_entry :: "Records \<Rightarrow> string \<Rightarrow> string \<Rightarrow> bool" where
  "has_truthy_entry records dateStr user =
     (case map_of records dateStr of
        None \<Rightarrow> False
      | Some day \<Rightarrow>
          (case map_of day user of
             None \<Rightarrow> user \<in> set object_prototype_names
           | Some n \<Rightarrow> n \<noteq> 0))"

text \<open>The loop of \<^verbatim>\<open>calculateConsecutiveDays\<close> on the time value \<open>t\<close> of \<^verbatim>\<open>d\<close>.\<close>

function calc_loop :: "zone \<Rightarrow> Records \<Rightarrow> string \<Rightarrow> nat \<Rightarrow> int \<Rightarrow> error + nat" where
  "calc_loop z records user count t =
     (if \<not> time_in_range t then Inl RangeError
      else if has_truthy_entry records (iso_date (t div 1440)) user
        then calc_loop z records user (count + 1) (setDate_previous z t)
        else Inr count)"
  by pat_completeness auto
termination
  by (relation "measure (\<lambda>(z, records, user, count, t). nat (t + 144000000001))")
     (auto simp: time_in_range_def setDate_previous_def utc_offset_def local_offset_def)

text \<open>\<open>t\<close> is the time value of \<^verbatim>\<open>new Date()\<close>.\<close>

definition calculateConsecutiveDays :: "zone \<Rightarrow> int \<Rightarrow> string \<Rightarrow> Records \<Rightarrow> error + nat" where
  "calculateConsecutiveDays z t user records = calc_loop z records user 0 t"

text \<open>The number of times the body of the \<^verbatim>\<open>while (true)\<close> loop is entered.\<close>

function loop_iterations :: "zone \<Rightarrow> Records \<Rightarrow> string \<Rightarrow> int \<Rightarrow> nat" where
  "loop_iterations z records user t =
     (if \<not> time_in_range t then 1
      else if has_truthy_entry records (iso_date (t div 1440)) user
        then 1 + loop_iterations z records user (setDate_previous z t)
        else 1)"
  by pat_completeness auto
termination
  by (relation "measure (\<lambda>(z, records, user, t). nat (t + 144000000001))")
     (auto simp: time_in_range_def setDate_previous_def utc_offset_def local_offset_def)

text \<open>What the data model calls an entry: the value stored under \<open>entries[date][member]\<close>.\<close>

definition entry_of :: "Records \<Rightarrow> string \<Rightarrow> string \<Rightarrow> int option" where
  "entry_of records date user =
     (case map_of records date of None \<Rightarrow> None | Some day \<Rightarrow> map_of day user)"


section \<open>Objects and their property order\<close>

text \<open>
  The own properties of an ordinary object are enumerated with the array indices
  first (canonical decimal strings up to \<open>2^32 - 2\<close>, in ascending numeric order) and
  the other string keys after them in the order of their creation. An object is kept
  in this order: assigning to an existing property keeps its place, a new property is
  put where the enumeration will find it. An object spread \<^verbatim>\<open>{ ...o }\<close> copies the
  properties in this order, so the copy is the same list.
\<close>

definition digit_val :: "char \<Rightarrow> int option" where
  "digit_val c =
     map_of [(CHR ''0'', 0), (CHR ''1'', 1), (CHR ''2'', 2), (CHR ''3'', 3), (CHR ''4'', 4),
             (CHR ''5'', 5), (CHR ''6'', 6), (CHR ''7'', 7), (CHR ''8'', 8), (CHR ''9'', 9)] c"

text \<open>The number that a string of decimal digits denotes.\<close>

fun dec_acc :: "int \<Rightarrow> string \<Rightarrow> int option" where
  "dec_acc acc [] = Some acc"
| "dec_acc acc (c # cs) =
     (case digit_val c of None \<Rightarrow> None | Some v \<Rightarrow> dec_acc (10 * acc + v) cs)"

definition dec_val :: "string \<Rightarrow> int option" where
  "dec_val s = (if s = [] then None else dec_acc 0 s)"

definition array_index :: "string \<Rightarrow> int option" where
  "array_index s =
     (case dec_val s of
        None \<Rightarrow> None
      | Some n \<Rightarrow>
          if (s = ''0'' \<or> hd s \<noteq> CHR ''0'') \<and> n \<le> 4294967294 then Some n else None)"

definition key_precedes :: "string \<Rightarrow> string \<Rightarrow> bool" where
  "key_precedes k k' =
     (case array_index k of
        None \<Rightarrow> False
      | Some i \<Rightarrow> (case array_index k' of None \<Rightarrow> True | Some j \<Rightarrow> i < j))"

fun obj_insert :: "string \<Rightarrow> 'v \<Rightarrow> 'v js_obj \<Rightarrow> 'v js_obj" where
  "obj_insert k v [] = [(k, v)]"
| "obj_insert k v ((k', v') # obj) =
     (if key_precedes k k' then (k, v) # (k', v') # obj
      else (k', v') # obj_insert k v obj)"

text \<open>\<^verbatim>\<open>obj[k] = v\<close>\<close>

definition obj_set :: "string \<Rightarrow> 'v \<Rightarrow> 'v js_obj \<Rightarrow> 'v js_obj" where
  "obj_set k v obj =
     (case map_of obj k of
        None \<Rightarrow> obj_insert k v obj
      | Some _ \<Rightarrow> AList.update k v obj)"

section \<open>The monthly leaderboard\<close>

text \<open>
  \<^verbatim>\<open>obj[k] = v\<close> for a number \<open>v\<close>, on an object that inherits from
  \<^verbatim>\<open>Object.prototype\<close>: the inherited \<^verbatim>\<open>__proto__\<close> is an accessor whose setter ignores
  a number, so the assignment creates no property; every other name is created or
  overwritten as an own property.
\<close>

definition obj_assign :: "string \<Rightarrow> 'v \<Rightarrow> 'v js_obj \<Rightarrow> 'v js_obj" where
  "obj_assign k v obj =
     (if k = ''__proto__'' \<and> map_of obj k = None then obj else obj_set k v obj)"

text \<open>\<^verbatim>\<open>users.forEach(user => totals[user] = 0)\<close>\<close>

definition init_totals :: "string list \<Rightarrow> int js_obj" where
  "init_totals users = foldl (\<lambda>totals user. obj_assign user 0 totals) [] users"

text \<open>\<^verbatim>\<open>if (totals.hasOwnProperty(user)) totals[user] += n\<close>, once the method
  \<^verbatim>\<open>hasOwnProperty\<close> has been found. The sum is formed in the integers; it is the
  source's sum of doubles on the records that \<open>safe_integers\<close> describes below.\<close>

definition add_count :: "int js_obj \<Rightarrow> string \<times> int \<Rightarrow> int js_obj" where
  "add_count totals e =
     (case e of (user, n) \<Rightarrow>
        (case map_of totals user of
           None \<Rightarrow> totals
         | Some t \<Rightarrow> obj_set user (t + n) totals))"

text \<open>
  The body of \<^verbatim>\<open>for (const user in records[date])\<close>, run on the property \<open>user\<close> of
  the day's object and its value \<open>n = records[date][user]\<close>. The call
  \<^verbatim>\<open>totals.hasOwnProperty(user)\<close> reads the property \<^verbatim>\<open>hasOwnProperty\<close> of \<^verbatim>\<open>totals\<close>:
  when a member has that name it is an own property holding a number, and calling it
  throws a \<^verbatim>\<open>TypeError\<close>.
\<close>

definition add_entry :: "int js_obj \<Rightarrow> string \<times> int \<Rightarrow> error + int js_obj" where
  "add_entry totals e =
     (case map_of totals ''hasOwnProperty'' of
        Some _ \<Rightarrow> Inl TypeError
      | None \<Rightarrow> Inr (add_count totals e))"

text \<open>A loop whose body may throw: the first exception leaves the loop.\<close>

fun fold_err :: "('s \<Rightarrow> 'a \<Rightarrow> error + 's) \<Rightarrow> 's \<Rightarrow> 'a list \<Rightarrow> error + 's" where
  "fold_err f s [] = Inr s"
| "fold_err f s (x # xs) = (case f s x of Inl e \<Rightarrow> Inl e | Inr s' \<Rightarrow> fold_err f s' xs)"

text \<open>The body of \<^verbatim>\<open>for (const date in records)\<close>.\<close>

definition add_date :: "string \<Rightarrow> int js_obj \<Rightarrow> string \<times> int js_obj \<Rightarrow> error + int js_obj" where
  "add_date currentMonth totals e =
     (case e of (date, day) \<Rightarrow>
        if getMonthFromDateString date = currentMonth then fold_err add_entry totals day
        else Inr totals)"

definition monthly_totals :: "string \<Rightarrow> string list \<Rightarrow> Records \<Rightarrow> error + int js_obj" where
  "monthly_totals currentMonth users records =
     fold_err (add_date currentMonth) (init_totals users) records"

text \<open>What the two loops compute when \<^verbatim>\<open>totals.hasOwnProperty\<close> is the inherited
  method and no exception is thrown.\<close>

definition add_date_counts :: "string \<Rightarrow> int js_obj \<Rightarrow> string \<times> int js_obj \<Rightarrow> int js_obj" where
  "add_date_counts currentMonth totals e =
     (case e of (date, day) \<Rightarrow>
        if getMonthFromDateString date = currentMonth then foldl add_count totals day
        else totals)"

definition counted_totals :: "string \<Rightarrow> string list \<Rightarrow> Records \<Rightarrow> int js_obj" where
  "counted_totals currentMonth users records =
     foldl (add_date_counts currentMonth) (init_totals users) records"

record stat_row =
  user :: string
  total :: int
  consecutiveDays :: nat

text \<open>\<^verbatim>\<open>Object.entries(totals).map(...)\<close>: an exception thrown by
  \<^verbatim>\<open>calculateConsecutiveDays\<close> leaves the whole computation.\<close>

fun entries_to_rows :: "zone \<Rightarrow> int \<Rightarrow> Records \<Rightarrow> int js_obj \<Rightarrow> error + stat_row list" where
  "entries_to_rows z t records [] = Inr []"
| "entries_to_rows z t records ((u, n) # totals) =
     (case calculateConsecutiveDays z t u records of
        Inl e \<Rightarrow> Inl e
      | Inr c \<Rightarrow>
          (case entries_to_rows z t records totals of
             Inl e \<Rightarrow> Inl e
           | Inr rows \<Rightarrow> Inr (\<lparr>user = u, total = n, consecutiveDays = c\<rparr> # rows)))"

text \<open>
  \<^verbatim>\<open>monthlyStats\<close>, at the time value \<open>t\<close> of the clock in time zone \<open>z\<close>.
  \<^verbatim>\<open>.sort((a, b) => b.total - a.total)\<close> is a stable sort by descending total;
  \<open>sort_key\<close> is a stable insertion sort by ascending key.
\<close>

definition monthlyStats :: "zone \<Rightarrow> int \<Rightarrow> string list \<Rightarrow> Records \<Rightarrow> error + stat_row list" where
  "monthlyStats z t users records =
     (let currentMonth = getMonthFromDateString (getTodayDateString (t div 1440))
      in case monthly_totals currentMonth users records of
           Inl e \<Rightarrow> Inl e
         | Inr totals \<Rightarrow>
             (case entries_to_rows z t records totals of
                Inl e \<Rightarrow> Inl e
              | Inr rows \<Rightarrow> Inr (sort_key (\<lambda>r. - total r) rows)))"


section \<open>The monthly chart\<close>

text \<open>
  \<^verbatim>\<open>new Date(s)\<close> on a date-only ISO string (\<^verbatim>\<open>YYYY-MM\<close> or \<^verbatim>\<open>YYYY-MM-DD\<close>) is
  midnight UTC of that day; the result is the UTC day number. Every other string is
  modelled as an invalid date (\<open>None\<close>, the time value \<^verbatim>\<open>NaN\<close>). This leaves out
  the year-only and the expanded-year forms of the ISO format (\<^verbatim>\<open>+010000-01-01\<close>) and
  the strings outside the format that an engine accepts all the same
  (\<^verbatim>\<open>2024-02-30\<close>, \<^verbatim>\<open>2024-05-7\<close>): what an engine makes of those is left to it by
  ECMA-262. The source writes date keys with four-digit years, two-digit months and
  days only.
\<close>

text \<open>The number of days of month \<open>m\<close> (counted from 1) of year \<open>y\<close>: from the last day
  of the month before to the last day of the month.\<close>

definition days_in_month :: "int \<Rightarrow> int \<Rightarrow> int" where
  "days_in_month y m = MakeDay y m 0 - MakeDay y (m - 1) 0"

definition parse_date :: "string \<Rightarrow> int option" where
  "parse_date s =
     (if length s = 7 \<and> s ! 4 = CHR ''-'' then
        (case (dec_val (take 4 s), dec_val (drop 5 s)) of
           (Some y, Some m) \<Rightarrow>
             if 1 \<le> m \<and> m \<le> 12 then Some (days_from_civil y m 1) else None
         | _ \<Rightarrow> None)
      else if length s = 10 \<and> s ! 4 = CHR ''-'' \<and> s ! 7 = CHR ''-'' then
        (case (dec_val (take 4 s), dec_val (take 2 (drop 5 s)), dec_val (drop 8 s)) of
           (Some y, Some m, Some d) \<Rightarrow>
             if 1 \<le> m \<and> m \<le> 12 \<and> 1 \<le> d \<and> d \<le> days_in_month y m
             then Some (days_from_civil y m d) else None
         | _ \<Rightarrow> None)
      else None)"

text \<open>The local calendar day of midnight UTC of day \<open>t\<close>, at \<open>tz\<close> minutes east of UTC.\<close>

definition local_day :: "int \<Rightarrow> int \<Rightarrow> int" where
  "local_day tz t = (t * 1440 + tz) div 1440"

text \<open>\<^verbatim>\<open>new Date(s).getFullYear()\<close>, \<^verbatim>\<open>new Date(s).getMonth()\<close> (counted from 0) and
  \<^verbatim>\<open>new Date(s).getDate()\<close> read the local calendar; \<open>None\<close> is \<^verbatim>\<open>NaN\<close>.\<close>

definition getFullYear :: "int \<Rightarrow> string \<Rightarrow> int option" where
  "getFullYear tz s =
     (case parse_date s of
        None \<Rightarrow> None
      | Some t \<Rightarrow> (case civil_from_days (local_day tz t) of (y, m, d) \<Rightarrow> Some y))"

definition getMonth :: "int \<Rightarrow> string \<Rightarrow> int option" where
  "getMonth tz s =
     (case parse_date s of
        None \<Rightarrow> None
      | Some t \<Rightarrow> (case civil_from_days (local_day tz t) of (y, m, d) \<Rightarrow> Some (m - 1)))"

definition getDate :: "int \<Rightarrow> string \<Rightarrow> int option" where
  "getDate tz s =
     (case parse_date s of
        None \<Rightarrow> None
      | Some t \<Rightarrow> (case civil_from_days (local_day tz t) of (y, m, d) \<Rightarrow> Some d))"

text \<open>
  \<^verbatim>\<open>new Date(year, month, 0).getDate()\<close>: the constructor takes local calendar fields
  (a year from 0 to 99 means 1900 + year) and \<^verbatim>\<open>getDate\<close> reads the local calendar
  again, so the offset cancels.
\<close>

definition last_date_before :: "int \<Rightarrow> int \<Rightarrow> int" where
  "last_date_before year month =
     (let yr = (if 0 \<le> year \<and> year \<le> 99 then 1900 + year else year)
      in case civil_from_days (MakeDay yr month 0) of (y, m, d) \<Rightarrow> d)"

definition daysInMonth :: "int \<Rightarrow> string \<Rightarrow> int option" where
  "daysInMonth tz currentMonth =
     (case (getFullYear tz currentMonth, getMonth tz currentMonth) of
        (Some year, Some month) \<Rightarrow> Some (last_date_before year (month + 1))
      | _ \<Rightarrow> None)"

text \<open>
  \<^verbatim>\<open>dailyCounts\<close> is an object whose keys are numbers: the property name of a day
  \<open>n\<close> (a positive integer) is its decimal string and that of \<^verbatim>\<open>NaN\<close> is
  \<^verbatim>\<open>"NaN"\<close>; \<^verbatim>\<open>Number(key)\<close> reads the number back.
\<close>

function dec_string :: "int \<Rightarrow> string" where
  "dec_string n = (if n < 10 then [digit_char n] else dec_string (n div 10) @ [digit_char n])"
  by pat_completeness auto
termination
  by (relation "measure nat") auto

declare dec_string.simps [simp del]

definition number_key :: "int option \<Rightarrow> string" where
  "number_key n = (case n of None \<Rightarrow> ''NaN'' | Some i \<Rightarrow> dec_string i)"

record chart_point =
  day :: "int option"
  count :: nat

text \<open>\<^verbatim>\<open>for (let i = 1; i <= daysInMonth; i++) dailyCounts[i] = 0\<close>; the loop does
  not run when \<^verbatim>\<open>daysInMonth\<close> is \<^verbatim>\<open>NaN\<close>.\<close>

definition init_counts :: "int option \<Rightarrow> nat js_obj" where
  "init_counts n =
     (case n of
        None \<Rightarrow> []
      | Some k \<Rightarrow> foldl (\<lambda>dailyCounts i. obj_set (number_key (Some i)) 0 dailyCounts) [] [1..k])"

definition count_date :: "int \<Rightarrow> string \<Rightarrow> nat js_obj \<Rightarrow> string \<times> int js_obj \<Rightarrow> nat js_obj" where
  "count_date tz currentMonth dailyCounts e =
     (case e of (date, users_of_day) \<Rightarrow>
        if getMonthFromDateString date = currentMonth
        then obj_set (number_key (getDate tz date)) (length users_of_day) dailyCounts
        else dailyCounts)"

definition chartData :: "int \<Rightarrow> int \<Rightarrow> Records \<Rightarrow> chart_point list" where
  "chartData tz now records =
     (let currentMonth = getMonthFromDateString (getTodayDateString now);
          dailyCounts = foldl (count_date tz currentMonth)
                          (init_counts (daysInMonth tz currentMonth)) records
      in map (\<lambda>(k, c). \<lparr>day = dec_val k, count = c\<rparr>) dailyCounts)"

section \<open>The application state and its handlers\<close>

text \<open>
  The state \<^verbatim>\<open>data = { users, records }\<close> is replaced by \<^verbatim>\<open>setData\<close>. The
  \<^verbatim>\<open>users\<close> array and the outer \<^verbatim>\<open>records\<close> object are only ever built anew (array
  spread, \<^verbatim>\<open>filter\<close>, object spread) and never written after that, so they are
  values. The per-date objects are shared between successive states by the object
  spread, which copies references: they live in an explicit heap (a list of objects,
  an address being an index), and \<^verbatim>\<open>records\<close> maps a date to the address of its
  object.
\<close>

type_synonym addr = nat

type_synonym heap = "int js_obj list"

record data =
  users :: "string list"
  records :: "addr js_obj"

text \<open>What a reader of state \<open>d\<close> sees in heap \<open>h\<close>.\<close>

definition deref :: "heap \<Rightarrow> addr js_obj \<Rightarrow> Records" where
  "deref h recs = map (\<lambda>(date, a). (date, h ! a)) recs"

datatype alert = AlertInvalidCheckIn | AlertInvalidChapters | AlertMemberExists string

text \<open>\<^verbatim>\<open>handleCheckIn\<close>: \<^verbatim>\<open>{ ...prevData.records[today], [user]: chapters }\<close> is a new
  object, and \<^verbatim>\<open>{ ...prevData.records, [today]: ... }\<close> a new outer object.\<close>

definition handleCheckIn :: "int \<Rightarrow> string \<Rightarrow> int \<Rightarrow> heap \<times> data \<Rightarrow> heap \<times> data" where
  "handleCheckIn now usr chapters app =
     (case app of (h, prevData) \<Rightarrow>
        let today = getTodayDateString now;
            prev_today = (case map_of (records prevData) today of None \<Rightarrow> [] | Some a \<Rightarrow> h ! a);
            new_today = obj_set usr chapters prev_today
        in (h @ [new_today], prevData\<lparr>records := obj_set today (length h) (records prevData)\<rparr>))"

definition handleAddUser :: "string \<Rightarrow> heap \<times> data \<Rightarrow> alert option \<times> heap \<times> data" where
  "handleAddUser newUser app =
     (case app of (h, prevData) \<Rightarrow>
        if newUser \<in> set (users prevData) then (Some (AlertMemberExists newUser), app)
        else (None, h, prevData\<lparr>users := users prevData @ [newUser]\<rparr>))"

text \<open>The body of \<^verbatim>\<open>Object.keys(newRecords).forEach(date => ...)\<close>:
  \<^verbatim>\<open>delete newRecords[date][userToRemove]\<close> writes to the object that
  \<^verbatim>\<open>newRecords[date]\<close> refers to. (An inherited property passes the guard too when
  the object has no own property of the name; \<^verbatim>\<open>delete\<close> then removes nothing, as
  here.)\<close>

definition remove_from_date :: "addr js_obj \<Rightarrow> string \<Rightarrow> heap \<Rightarrow> string \<Rightarrow> heap" where
  "remove_from_date newRecords userToRemove h date =
     (case map_of newRecords date of
        None \<Rightarrow> h
      | Some a \<Rightarrow>
          (case map_of (h ! a) userToRemove of
             None \<Rightarrow> h
           | Some n \<Rightarrow> if n \<noteq> 0 then h[a := AList.delete userToRemove (h ! a)] else h))"

text \<open>\<^verbatim>\<open>handleRemoveUser\<close>; \<open>confirmed\<close> is the answer to \<^verbatim>\<open>window.confirm\<close>.\<close>

definition handleRemoveUser :: "bool \<Rightarrow> string \<Rightarrow> heap \<times> data \<Rightarrow> heap \<times> data" where
  "handleRemoveUser confirmed userToRemove app =
     (case app of (h, prevData) \<Rightarrow>
        if confirmed then
          let newUsers = filter (\<lambda>u. u \<noteq> userToRemove) (users prevData);
              newRecords = records prevData
          in (foldl (remove_from_date newRecords userToRemove) h (map fst newRecords),
              \<lparr>users = newUsers, records = newRecords\<rparr>)
        else app)"

text \<open>\<^verbatim>\<open>CheckInForm.handleSubmit\<close>: the field \<^verbatim>\<open>chapters\<close> of the form is the empty
  string (\<open>None\<close>) or a number.\<close>

definition handleSubmit ::
  "int \<Rightarrow> string \<Rightarrow> int option \<Rightarrow> heap \<times> data \<Rightarrow> alert option \<times> heap \<times> data" where
  "handleSubmit now selectedUser chapters app =
     (case chapters of
        None \<Rightarrow> (Some AlertInvalidCheckIn, app)
      | Some c \<Rightarrow>
          if selectedUser = [] \<or> c \<le> 0 then (Some AlertInvalidCheckIn, app)
          else (None, handleCheckIn now selectedUser c app))"

text \<open>\<^verbatim>\<open>DailyReport.handleSave\<close>, the edit of today's record.\<close>

definition handleSave ::
  "int \<Rightarrow> (string \<times> int option) option \<Rightarrow> heap \<times> data \<Rightarrow> alert option \<times> heap \<times> data" where
  "handleSave now editingState app =
     (case editingState of
        Some (usr, Some c) \<Rightarrow>
          if c > 0 then (None, handleCheckIn now usr c app)
          else (Some AlertInvalidChapters, app)
      | _ \<Rightarrow> (Some AlertInvalidChapters, app))"


text \<open>
  The heap is well formed for a state when the outer object has distinct keys, every
  address it holds is allocated, and every object of the heap has distinct keys.
\<close>

definition wf_app :: "heap \<times> data \<Rightarrow> bool" where
  "wf_app app =
     (case app of (h, d) \<Rightarrow>
        distinct (map fst (records d)) \<and>
        (\<forall>a \<in> snd ` set (records d). a < length h) \<and>
        (\<forall>obj \<in> set h. distinct (map fst obj)))"

text \<open>The store as a reader of the state sees it.\<close>

definition store_view :: "heap \<times> data \<Rightarrow> Records" where
  "store_view app = deref (fst app) (records (snd app))"


section \<open>Notions of the specification\<close>

text \<open>The total of the specification: the sum of \<open>entries[date][member]\<close> over the
  dates whose month key is the month.\<close>

definition total_chapters :: "string \<Rightarrow> Records \<Rightarrow> string \<Rightarrow> int" where
  "total_chapters month entries member =
     sum_list (map (\<lambda>(date, obj). case map_of obj member of None \<Rightarrow> 0 | Some n \<Rightarrow> n)
                 (filter (\<lambda>(date, obj). getMonthFromDateString date = month) entries))"

text \<open>The records hold nothing on the first two days that a \<^verbatim>\<open>Date\<close> can represent. A
  step of the backward walk goes back by 23 to 25 hours, so every walk comes to a day
  without an entry, not to a \<^verbatim>\<open>RangeError\<close>.\<close>

definition walk_ends :: "Records \<Rightarrow> bool" where
  "walk_ends recs \<longleftrightarrow>
     map_of recs (iso_date (- 100000000)) = None \<and> map_of recs (iso_date (- 99999999)) = None"

text \<open>
  The source adds chapter counts as IEEE doubles, the model as integers. When the
  magnitudes of all stored counts sum to at most \<open>2^53\<close>, every sum that the source
  forms is an integer of magnitude at most \<open>2^53\<close>; a double holds it exactly, and the
  two additions agree.
\<close>

definition safe_integers :: "Records \<Rightarrow> bool" where
  "safe_integers recs \<longleftrightarrow>
     sum_list (map (\<lambda>(date, obj). sum_list (map (\<lambda>(u, n). \<bar>n\<bar>) obj)) recs)
       \<le> 9007199254740992"

text \<open>Every per-date object has distinct keys, as every object has.\<close>

definition distinct_members :: "Records \<Rightarrow> bool" where
  "distinct_members recs \<longleftrightarrow> (\<forall>e \<in> set recs. distinct (map fst (snd e)))"

text \<open>The records without the entries of names that are not members.\<close>

definition without_orphans :: "string list \<Rightarrow> Records \<Rightarrow> Records" where
  "without_orphans members recs =
     map (\<lambda>(date, obj). (date, filter (\<lambda>(u, n). u \<in> set members) obj)) recs"


section \<open>Example inputs\<close>

text \<open>Two time zones: UTC, and London in 2024, on summer time from 31 March 01:00 UTC
  to 27 October 01:00 UTC.\<close>

definition utc :: zone where
  "utc = \<lparr>std_offset = 0, dst_periods = []\<rparr>"

definition london_2024 :: zone where
  "london_2024 = \<lparr>std_offset = 0, dst_periods = [(28530780, 28833180)]\<rparr>"

text \<open>Records with entries of \<^verbatim>\<open>A\<close> on 31 March and 1 April 2024, and on 26, 27 and
  28 October 2024.\<close>

definition spring_records :: Records where
  "spring_records = [(''2024-03-31'', [(''A'', 1)]), (''2024-04-01'', [(''A'', 1)])]"

definition autumn_records :: Records where
  "autumn_records =
     [(''2024-10-26'', [(''A'', 1)]), (''2024-10-27'', [(''A'', 1)]), (''2024-10-28'', [(''A'', 1)])]"

text \<open>The example store of the specification: members \<^verbatim>\<open>A\<close> and \<^verbatim>\<open>B\<close>, entries on
  1 and 2 May 2024. Day 19845 is 2 May 2024, and its midnight UTC is the time value
  28576800.\<close>

definition example_records :: Records where
  "example_records =
     [(''2024-05-01'', [(''A'', 3)]), (''2024-05-02'', [(''A'', 2), (''B'', 1)])]"

text \<open>A state with one member and one record, its object at address 0.\<close>

definition example_app :: "heap \<times> data" where
  "example_app = ([[(''A'', 3)]], \<lparr>users = [''A''], records = [(''2024-05-01'', 0)]\<rparr>)"

text \<open>The state after member \<^verbatim>\<open>A\<close> has checked in one chapter on each of \<open>n\<close>
  consecutive days, the first of them day \<open>first\<close>.\<close>

fun daily_check_ins :: "int \<Rightarrow> nat \<Rightarrow> heap \<times> data" where
  "daily_check_ins first 0 = ([], \<lparr>users = [''A''], records = []\<rparr>)"
| "daily_check_ins first (Suc n) =
     handleCheckIn (first + int n) ''A'' 1 (daily_check_ins first n)"


section \<open>The streak calculator\<close>

lemma example_dates:
  "iso_date 19846 = ''2024-05-03''" "iso_date 19845 = ''2024-05-02''"
  "iso_date 19844 = ''2024-05-01''" "iso_date 19843 = ''2024-04-30''"
  by code_simp+

lemma first_days_of_range:
  "iso_date (- 100000000) = ''-271821-04-20''" "iso_date (- 99999999) = ''-271821-04-21''"
  by code_simp+

lemma day_back: "(t - 1440) div 1440 = t div 1440 - (1::int)"
  using div_mult_self1 [of "1440::int" t "- 1"] by simp

lemma setDate_previous_fixed: "dst_periods z = [] \<Longrightarrow> setDate_previous z t = t - 1440"
  by (simp add: setDate_previous_def utc_offset_def local_offset_def in_dst_def)

lemma setDate_previous_bounds:
  "t - 1500 \<le> setDate_previous z t" "setDate_previous z t \<le> t - 1380"
  by (simp_all add: setDate_previous_def utc_offset_def local_offset_def)

text \<open>In a time zone without daylight-saving time, for a name that is not a property of
  \<^verbatim>\<open>Object.prototype\<close>, the walk counts the days of the streak.\<close>

lemma calc_loop_streak:
  assumes "dst_periods z = []"
    and "\<forall>k<N. has_truthy_entry recs (iso_date (t div 1440 - int k)) u"
    and "\<not> has_truthy_entry recs (iso_date (t div 1440 - int N)) u"
    and "- 144000000000 \<le> t - 1440 * int N" and "t \<le> 144000000000"
  shows "calc_loop z recs u c t = Inr (c + N)"
  using assms(2-)
proof (induction N arbitrary: c t)
  case 0
  then have "time_in_range t" by (simp add: time_in_range_def)
  with 0 show ?case by (subst calc_loop.simps) simp
next
  case (Suc N)
  have inr: "time_in_range t" using Suc.prems by (simp add: time_in_range_def)
  have here: "has_truthy_entry recs (iso_date (t div 1440)) u" using Suc.prems(1) by force
  have "\<forall>k<N. has_truthy_entry recs (iso_date ((t - 1440) div 1440 - int k)) u"
  proof (intro allI impI)
    fix k assume "k < N"
    then have "has_truthy_entry recs (iso_date (t div 1440 - int (Suc k))) u"
      using Suc.prems(1) by (meson Suc_less_eq)
    then show "has_truthy_entry recs (iso_date ((t - 1440) div 1440 - int k)) u"
      by (simp add: day_back algebra_simps)
  qed
  moreover have "\<not> has_truthy_entry recs (iso_date ((t - 1440) div 1440 - int N)) u"
    using Suc.prems(2) by (simp add: day_back algebra_simps)
  moreover have "- 144000000000 \<le> t - 1440 - 1440 * int N" "t - 1440 \<le> 144000000000"
    using Suc.prems by simp_all
  ultimately have "calc_loop z recs u (c + 1) (t - 1440) = Inr (c + 1 + N)"
    by (rule Suc.IH)
  with inr here show ?case
    by (subst calc_loop.simps) (simp add: setDate_previous_fixed [OF assms(1)])
qed

lemma positive_entry_truthy:
  "entry_of recs date u = Some n \<Longrightarrow> 1 \<le> n \<Longrightarrow> has_truthy_entry recs date u"
  by (auto simp: entry_of_def has_truthy_entry_def split: option.splits)

lemma no_entry_falsy:
  "entry_of recs date u = None \<Longrightarrow> u \<notin> set object_prototype_names \<Longrightarrow>
   \<not> has_truthy_entry recs date u"
  by (auto simp: entry_of_def has_truthy_entry_def split: option.splits)

lemma streak_in_fixed_zone:
  assumes "dst_periods z = []" and "u \<notin> set object_prototype_names"
    and "time_in_range t" and "- 144000000000 \<le> t - 1440 * int N"
    and "\<forall>k<N. \<exists>n. entry_of recs (iso_date (t div 1440 - int k)) u = Some n \<and> 1 \<le> n"
    and "entry_of recs (iso_date (t div 1440 - int N)) u = None"
  shows "calculateConsecutiveDays z t u recs = Inr N"
proof -
  have "\<forall>k<N. has_truthy_entry recs (iso_date (t div 1440 - int k)) u"
    using assms(5) positive_entry_truthy by blast
  moreover have "\<not> has_truthy_entry recs (iso_date (t div 1440 - int N)) u"
    using assms(6) assms(2) by (rule no_entry_falsy)
  moreover have "t \<le> 144000000000" using assms(3) by (simp add: time_in_range_def)
  ultimately have "calc_loop z recs u 0 t = Inr (0 + N)"
    using assms(1) assms(4) by (intro calc_loop_streak)
  then show ?thesis by (simp add: calculateConsecutiveDays_def)
qed

text \<open>
  Claim C2 fails on the code in two ways. The walk steps back with
  \<^verbatim>\<open>setDate(getDate() - 1)\<close>, one day of local time, and reads the date of
  \<^verbatim>\<open>toISOString\<close>, a UTC date: across a change of the clocks a UTC date comes twice or
  not at all. In London at 23:30 UTC on 1 April 2024, with entries on 1 April and
  31 March and none on 30 March, the streak is 2 and the code returns 3 (in UTC it
  returns 2); at 00:30 UTC on 28 October 2024, with entries on 28, 27 and 26 October,
  the streak is 3 and the code returns 2. And the guard reads
  \<^verbatim>\<open>records[dateStr][user]\<close> with the inherited properties: member \<^verbatim>\<open>constructor\<close>,
  with no entry at all, has a streak of 1 on a day on which only \<^verbatim>\<open>B\<close> checked in.
\<close>

theorem streak_across_clock_change:
  "getTodayDateString (28533570 div 1440) = ''2024-04-01''
   \<and> calculateConsecutiveDays london_2024 28533570 ''A'' spring_records = Inr 3
   \<and> calculateConsecutiveDays utc 28533570 ''A'' spring_records = Inr 2
   \<and> getTodayDateString (28834590 div 1440) = ''2024-10-28''
   \<and> calculateConsecutiveDays london_2024 28834590 ''A'' autumn_records = Inr 2
   \<and> getTodayDateString (28576800 div 1440) = ''2024-05-02''
   \<and> entry_of [(''2024-05-02'', [(''B'', 1)])] ''2024-05-02'' ''constructor'' = None
   \<and> calculateConsecutiveDays utc 28576800 ''constructor'' [(''2024-05-02'', [(''B'', 1)])] = Inr 1"
  by code_simp

section \<open>Objects\<close>

lemma map_of_obj_insert:
  "map_of obj k = None \<Longrightarrow> map_of (obj_insert k v obj) = (map_of obj)(k \<mapsto> v)"
  by (induction obj) (auto simp: fun_eq_iff split: if_splits)

lemma map_of_obj_set [simp]: "map_of (obj_set k v obj) = (map_of obj)(k \<mapsto> v)"
  by (simp add: obj_set_def map_of_obj_insert update_conv' split: option.splits)

lemma set_obj_insert: "set (obj_insert k v obj) = insert (k, v) (set obj)"
  by (induction obj) (auto split: if_splits)

lemma keys_obj_insert: "fst ` set (obj_insert k v obj) = insert k (fst ` set obj)"
  by (simp add: set_obj_insert)

lemma keys_obj_set [simp]: "fst ` set (obj_set k v obj) = insert k (fst ` set obj)"
proof -
  have "fst ` set (obj_set k v obj) = dom (map_of (obj_set k v obj))"
    by (simp only: dom_map_of_conv_image_fst)
  also have "\<dots> = insert k (dom (map_of obj))" by simp
  finally show ?thesis by (simp add: dom_map_of_conv_image_fst)
qed

lemma distinct_obj_insert:
  "k \<notin> fst ` set obj \<Longrightarrow> distinct (map fst obj) \<Longrightarrow> distinct (map fst (obj_insert k v obj))"
  by (induction obj) (auto simp: keys_obj_insert)

lemma distinct_obj_set:
  "distinct (map fst obj) \<Longrightarrow> distinct (map fst (obj_set k v obj))"
  by (auto simp: obj_set_def distinct_obj_insert distinct_update map_of_eq_None_iff
      split: option.splits)

lemma one_property:
  "distinct (map fst obj) \<Longrightarrow> map_of obj k = Some v \<Longrightarrow> length (filter (\<lambda>e. fst e = k) obj) = 1"
proof (induction obj)
  case Nil then show ?case by simp
next
  case (Cons e obj)
  show ?case
  proof (cases "fst e = k")
    case True
    with Cons.prems have "k \<notin> fst ` set obj" by simp
    then have "\<forall>x \<in> set obj. fst x \<noteq> k" by blast
    then have "filter (\<lambda>e. fst e = k) obj = []" by (simp add: filter_empty_conv)
    with True show ?thesis by simp
  next
    case False
    with Cons show ?thesis by (cases e) auto
  qed
qed

lemma map_of_deref: "map_of (deref h recs) date = map_option (\<lambda>a. h ! a) (map_of recs date)"
  by (induction recs) (auto simp: deref_def)

section \<open>Check-in and adding a member\<close>

lemma set_update_subset: "set (AList.update k v al) \<subseteq> insert (k, v) (set al)"
  by (induction al) auto

lemma set_obj_set_subset: "set (obj_set k v obj) \<subseteq> insert (k, v) (set obj)"
  using set_update_subset [of k v obj]
  by (auto simp: obj_set_def set_obj_insert split: option.splits)

lemma handleCheckIn_unfold:
  "handleCheckIn now u c (h, d) =
     (h @ [obj_set u c (case map_of (records d) (getTodayDateString now) of
                          None \<Rightarrow> [] | Some a \<Rightarrow> h ! a)],
      d\<lparr>records := obj_set (getTodayDateString now) (length h) (records d)\<rparr>)"
  by (simp add: handleCheckIn_def Let_def)

lemma wf_app_address: "wf_app (h, d) \<Longrightarrow> map_of (records d) date = Some a \<Longrightarrow> a < length h"
  by (force simp: wf_app_def dest: map_of_SomeD)

lemma wf_app_handleCheckIn:
  assumes "wf_app app"
  shows "wf_app (handleCheckIn now u c app)"
proof -
  obtain h d where app: "app = (h, d)" by (cases app)
  let ?today = "getTodayDateString now"
  let ?prev = "case map_of (records d) ?today of None \<Rightarrow> [] | Some a \<Rightarrow> h ! a"
  have "distinct (map fst ?prev)"
  proof (cases "map_of (records d) ?today")
    case None then show ?thesis by simp
  next
    case (Some a)
    then have "h ! a \<in> set h" using assms app wf_app_address by simp
    then show ?thesis using assms app Some by (simp add: wf_app_def)
  qed
  then have new: "distinct (map fst (obj_set u c ?prev))" by (rule distinct_obj_set)
  have "snd ` set (obj_set ?today (length h) (records d)) \<subseteq> insert (length h) (snd ` set (records d))"
    using set_obj_set_subset [of ?today "length h" "records d"] by force
  then have "\<forall>a \<in> snd ` set (obj_set ?today (length h) (records d)). a < length h + 1"
    using assms app by (fastforce simp: wf_app_def)
  then show ?thesis
    using assms new unfolding app handleCheckIn_unfold
    by (simp add: wf_app_def distinct_obj_set)
qed

text \<open>The store after a check-in, as a reader sees it: the old store with today's
  object replaced by a copy in which the member's property is set.\<close>

lemma store_view_handleCheckIn:
  assumes "wf_app app"
  shows "map_of (store_view (handleCheckIn now u c app)) =
         (map_of (store_view app))
           (getTodayDateString now \<mapsto>
              obj_set u c (case map_of (store_view app) (getTodayDateString now) of
                             None \<Rightarrow> [] | Some obj \<Rightarrow> obj))"
proof
  fix date
  obtain h d where app: "app = (h, d)" by (cases app)
  let ?today = "getTodayDateString now"
  let ?prev = "case map_of (records d) ?today of None \<Rightarrow> [] | Some a \<Rightarrow> h ! a"
  have prev: "(case map_of (store_view app) ?today of None \<Rightarrow> [] | Some obj \<Rightarrow> obj) = ?prev"
    by (simp add: app store_view_def map_of_deref split: option.splits)
  show "map_of (store_view (handleCheckIn now u c app)) date =
        ((map_of (store_view app))
           (?today \<mapsto> obj_set u c (case map_of (store_view app) ?today of
                             None \<Rightarrow> [] | Some obj \<Rightarrow> obj))) date"
  proof (cases "date = ?today")
    case True
    then show ?thesis
      unfolding prev by (simp add: app handleCheckIn_unfold store_view_def map_of_deref)
  next
    case False
    show ?thesis
    proof (cases "map_of (records d) date")
      case None
      with False show ?thesis
        by (simp add: app handleCheckIn_unfold store_view_def map_of_deref)
    next
      case (Some a)
      then have "a < length h" using assms app wf_app_address by simp
      with False Some show ?thesis
        by (simp add: app handleCheckIn_unfold store_view_def map_of_deref nth_append)
    qed
  qed
qed

lemma check_in_keeps_published_store:
  assumes "wf_app app"
  shows "deref (fst (handleCheckIn now u c app)) (records (snd app)) = store_view app"
proof -
  obtain h d where app: "app = (h, d)" by (cases app)
  have "\<forall>e \<in> set (records d). snd e < length h" using assms app by (auto simp: wf_app_def)
  then show ?thesis
    by (auto simp: app handleCheckIn_unfold store_view_def deref_def nth_append)
qed

lemma users_handleCheckIn: "users (snd (handleCheckIn now u c app)) = users (snd app)"
  by (cases app) (simp add: handleCheckIn_unfold)

text \<open>
  Claim C5. Two check-ins of the same member on the same day, with counts \<open>c1\<close> and
  then \<open>c2\<close>, leave today's object with exactly one property for the member, whose
  value is \<open>c2\<close> (the last write, not the sum); the other members' entries of today
  and the objects of all other dates are as they were, and so is the member list.
\<close>

theorem check_in_twice_overwrites:
  assumes "wf_app app"
  shows "\<exists>day2.
           map_of (store_view (handleCheckIn now u c2 (handleCheckIn now u c1 app)))
             (getTodayDateString now) = Some day2
           \<and> map_of day2 u = Some c2
           \<and> length (filter (\<lambda>e. fst e = u) day2) = 1
           \<and> (\<forall>u'. u' \<noteq> u \<longrightarrow>
                 map_of day2 u' = entry_of (store_view app) (getTodayDateString now) u')
           \<and> (\<forall>date. date \<noteq> getTodayDateString now \<longrightarrow>
                 map_of (store_view (handleCheckIn now u c2 (handleCheckIn now u c1 app))) date
                 = map_of (store_view app) date)
           \<and> users (snd (handleCheckIn now u c2 (handleCheckIn now u c1 app))) = users (snd app)"
proof -
  let ?today = "getTodayDateString now"
  let ?app1 = "handleCheckIn now u c1 app"
  let ?app2 = "handleCheckIn now u c2 ?app1"
  let ?prev = "case map_of (store_view app) ?today of None \<Rightarrow> [] | Some obj \<Rightarrow> obj"
  let ?day1 = "obj_set u c1 ?prev"
  let ?day2 = "obj_set u c2 ?day1"
  have wf1: "wf_app ?app1" using assms by (rule wf_app_handleCheckIn)
  have wf2: "wf_app ?app2" using wf1 by (rule wf_app_handleCheckIn)
  have v1: "map_of (store_view ?app1) = (map_of (store_view app))(?today \<mapsto> ?day1)"
    using assms by (rule store_view_handleCheckIn)
  have v2: "map_of (store_view ?app2) = (map_of (store_view app))(?today \<mapsto> ?day2)"
    using store_view_handleCheckIn [OF wf1, of now u c2] by (simp add: v1)
  obtain h2 d2 where app2: "?app2 = (h2, d2)" by (cases ?app2)
  have "(?today, ?day2) \<in> set (store_view ?app2)"
    using v2 by (simp add: map_of_SomeD)
  then have "?day2 \<in> set h2"
    using wf2 app2 by (force simp: store_view_def deref_def wf_app_def)
  then have "distinct (map fst ?day2)" using wf2 app2 by (simp add: wf_app_def)
  then have one: "length (filter (\<lambda>e. fst e = u) ?day2) = 1"
    by (rule one_property) simp
  have others: "\<forall>u'. u' \<noteq> u \<longrightarrow> map_of ?day2 u' = entry_of (store_view app) ?today u'"
    by (simp add: entry_of_def split: option.splits)
  show ?thesis
    using one others by (intro exI [of _ ?day2]) (simp add: v2 users_handleCheckIn)
qed

text \<open>
  Claim C8. Adding a name that is already a member raises the alert for an existing
  member and leaves the state (members and records) as it was.
\<close>

theorem add_existing_member_rejected:
  "name \<in> set (users (snd app)) \<Longrightarrow> handleAddUser name app = (Some (AlertMemberExists name), app)"
  by (cases app) (simp add: handleAddUser_def)

section \<open>Evaluations on the example state\<close>

lemma wf_example_app: "wf_app example_app"
  by (simp add: wf_app_def example_app_def)

lemma example_today: "getTodayDateString 19844 = ''2024-05-01''"
  by (simp add: getTodayDateString_def example_dates)

theorem check_in_twice_overwrites_witness:
  "wf_app example_app
   \<and> (\<exists>day2.
           map_of (store_view (handleCheckIn 19844 ''A'' 7 (handleCheckIn 19844 ''A'' 4 example_app)))
             (getTodayDateString 19844) = Some day2
           \<and> map_of day2 ''A'' = Some 7
           \<and> length (filter (\<lambda>e. fst e = ''A'') day2) = 1)"
  using check_in_twice_overwrites [OF wf_example_app, of 19844 "''A''" 7 4] wf_example_app
  by blast

theorem add_existing_member_rejected_witness:
  "''A'' \<in> set (users (snd example_app))
   \<and> handleAddUser ''A'' example_app = (Some (AlertMemberExists ''A''), example_app)"
proof -
  have m: "''A'' \<in> set (users (snd example_app))" by (simp add: example_app_def)
  from add_existing_member_rejected [OF m] m show ?thesis by blast
qed

text \<open>
  Claim C7 as stated fails: the form checks the chapter count and that some name is
  selected, and nothing checks that the name is a member. A check-in for \<^verbatim>\<open>Z\<close>, who
  is not a member of the example state, raises no alert and stores an entry.
\<close>

theorem check_in_unknown_member_counterexample:
  "''Z'' \<notin> set (users (snd example_app))
   \<and> fst (handleSubmit 19844 ''Z'' (Some 2) example_app) = None
   \<and> snd (handleSubmit 19844 ''Z'' (Some 2) example_app) \<noteq> example_app
   \<and> entry_of (store_view (snd (handleSubmit 19844 ''Z'' (Some 2) example_app)))
        ''2024-05-01'' ''Z'' = Some 2"
  by (simp add: handleSubmit_def handleCheckIn_unfold example_app_def example_today
      store_view_def deref_def entry_of_def obj_set_def)

text \<open>
  Claim C7, amended. A check-in submitted with no chapter count or with a count below 1
  raises the alert for an invalid check-in and leaves the state as it was; a check-in
  with a count of at least 1 for any non-empty name, member or not, raises no alert
  and stores the count as the name's entry of today.
\<close>

theorem check_in_validation:
  "((chapters = None \<or> (\<exists>c. chapters = Some c \<and> c < 1))
      \<longrightarrow> handleSubmit now member chapters app = (Some AlertInvalidCheckIn, app))
   \<and> (member \<noteq> [] \<and> 1 \<le> c
      \<longrightarrow> fst (handleSubmit now member (Some c) app) = None
        \<and> snd (handleSubmit now member (Some c) app) = handleCheckIn now member c app
        \<and> entry_of (store_view (handleCheckIn now member c app)) (getTodayDateString now) member
            = Some c)"
proof -
  obtain h d where app: "app = (h, d)" by (cases app)
  have "entry_of (store_view (handleCheckIn now member c app)) (getTodayDateString now) member
          = Some c"
    by (simp add: app handleCheckIn_unfold store_view_def map_of_deref entry_of_def)
  then show ?thesis by (auto simp: handleSubmit_def)
qed

theorem check_in_validation_witness:
  "handleSubmit 19844 ''A'' (Some 0) example_app = (Some AlertInvalidCheckIn, example_app)
   \<and> fst (handleSubmit 19844 ''Z'' (Some 2) example_app) = None
   \<and> entry_of (store_view (handleCheckIn 19844 ''Z'' 2 example_app)) (getTodayDateString 19844) ''Z''
       = Some 2"
proof -
  have a: "handleSubmit 19844 ''A'' (Some 0) example_app = (Some AlertInvalidCheckIn, example_app)"
    using check_in_validation [of "Some 0" 19844 "''A''" example_app] by simp
  have b: "fst (handleSubmit 19844 ''Z'' (Some 2) example_app) = None
           \<and> entry_of (store_view (handleCheckIn 19844 ''Z'' 2 example_app))
               (getTodayDateString 19844) ''Z'' = Some 2"
    using check_in_validation [of chapters 19844 "''Z''" example_app 2] by simp
  from a b show ?thesis by simp
qed

text \<open>
  Claim C1 fails for \<^verbatim>\<open>handleRemoveUser\<close>: the spread \<^verbatim>\<open>{ ...prevData.records }\<close>
  copies the references to the per-date objects, and \<^verbatim>\<open>delete\<close> then writes to the
  objects of the previous state. Read after the removal of \<^verbatim>\<open>A\<close>, the records of the
  previous state of the example have lost the entry of \<^verbatim>\<open>A\<close>.
\<close>

theorem remove_member_mutates_published_store:
  "store_view example_app = [(''2024-05-01'', [(''A'', 3)])]
   \<and> deref (fst (handleRemoveUser True ''A'' example_app)) (records (snd example_app))
       = [(''2024-05-01'', [])]"
  by (simp add: handleRemoveUser_def remove_from_date_def example_app_def store_view_def deref_def)

section \<open>The monthly leaderboard, verified\<close>

subsection \<open>The totals object\<close>

lemma map_of_init_fold:
  "map_of (foldl (\<lambda>totals u. obj_set u 0 totals) t us) u =
     (if u \<in> set us then Some 0 else map_of t u)"
  by (induction us arbitrary: t) auto

lemma distinct_init_fold:
  "distinct (map fst t) \<Longrightarrow>
   distinct (map fst (foldl (\<lambda>totals u. obj_assign u (0::int) totals) t us))"
  by (induction us arbitrary: t) (auto simp: obj_assign_def distinct_obj_set)

lemma distinct_init_totals: "distinct (map fst (init_totals us))"
  by (simp add: init_totals_def distinct_init_fold)

lemma keys_init_fold:
  "fst ` set (foldl (\<lambda>totals u. obj_set u (0::int) totals) t us) = fst ` set t \<union> set us"
  by (induction us arbitrary: t) auto

lemma keys_init_fold_subset:
  "fst ` set (foldl (\<lambda>totals u. obj_assign u (0::int) totals) t us) \<subseteq> fst ` set t \<union> set us"
proof (induction us arbitrary: t)
  case Nil
  then show ?case by simp
next
  case (Cons u us)
  have "fst ` set (obj_assign u (0::int) t) \<subseteq> insert u (fst ` set t)"
    by (simp add: obj_assign_def subset_insertI)
  with Cons [of "obj_assign u 0 t"] show ?case by auto
qed

text \<open>The properties of the totals object are members, whatever the records hold; they
  are all the members when none is called \<^verbatim>\<open>__proto__\<close>.\<close>

lemma keys_init_totals_subset: "fst ` set (init_totals us) \<subseteq> set us"
  using keys_init_fold_subset [of "[]" us] by (simp add: init_totals_def)

lemma init_fold_plain:
  "''__proto__'' \<notin> set us \<Longrightarrow>
   foldl (\<lambda>totals u. obj_assign u (0::int) totals) t us = foldl (\<lambda>totals u. obj_set u 0 totals) t us"
  by (induction us arbitrary: t) (auto simp: obj_assign_def)

lemma map_of_init_totals:
  "''__proto__'' \<notin> set us \<Longrightarrow>
   map_of (init_totals us) u = (if u \<in> set us then Some 0 else None)"
  by (simp add: init_totals_def init_fold_plain map_of_init_fold)

lemma keys_init_totals: "''__proto__'' \<notin> set us \<Longrightarrow> fst ` set (init_totals us) = set us"
  by (simp add: init_totals_def init_fold_plain keys_init_fold)

lemma map_of_add_count:
  "map_of (add_count t e) u =
     map_option (\<lambda>s. s + (if fst e = u then snd e else 0)) (map_of t u)"
  by (cases e) (auto simp: add_count_def split: option.splits)

lemma distinct_add_count: "distinct (map fst t) \<Longrightarrow> distinct (map fst (add_count t e))"
  by (cases e) (auto simp: add_count_def distinct_obj_set split: option.splits)

lemma map_of_add_counts:
  "map_of (foldl add_count t obj) u =
     map_option (\<lambda>s. s + sum_list (map snd (filter (\<lambda>e. fst e = u) obj))) (map_of t u)"
proof (induction obj arbitrary: t)
  case Nil
  then show ?case by (simp add: option.map_ident)
next
  case (Cons e obj)
  then show ?case
    by (cases "map_of t u") (simp_all add: map_of_add_count)
qed

lemma distinct_add_counts:
  "distinct (map fst t) \<Longrightarrow> distinct (map fst (foldl add_count t obj))"
  by (induction obj arbitrary: t) (auto simp: distinct_add_count)

lemma sum_of_property:
  "distinct (map fst obj) \<Longrightarrow>
   sum_list (map snd (filter (\<lambda>e. fst e = u) obj)) = (case map_of obj u of None \<Rightarrow> 0 | Some n \<Rightarrow> n)"
proof (induction obj)
  case Nil
  then show ?case by simp
next
  case (Cons e obj)
  show ?case
  proof (cases "fst e = u")
    case True
    with Cons.prems have "u \<notin> fst ` set obj" by auto
    then have "filter (\<lambda>e. fst e = u) obj = []" by (auto simp: filter_empty_conv)
    with True show ?thesis by (cases e) simp
  next
    case False
    with Cons show ?thesis by (cases e) auto
  qed
qed

lemma map_of_add_date_counts:
  "distinct (map fst obj) \<Longrightarrow>
   map_of (add_date_counts cm t (date, obj)) u =
     map_option (\<lambda>s. s + (if getMonthFromDateString date = cm
                           then (case map_of obj u of None \<Rightarrow> 0 | Some n \<Rightarrow> n) else 0))
       (map_of t u)"
  by (simp add: add_date_counts_def map_of_add_counts sum_of_property option.map_ident)

lemma distinct_add_date_counts: "distinct (map fst t) \<Longrightarrow> distinct (map fst (add_date_counts cm t e))"
  by (cases e) (simp add: add_date_counts_def distinct_add_counts)

lemma map_of_add_dates:
  "distinct_members recs \<Longrightarrow>
   map_of (foldl (add_date_counts cm) t recs) u = map_option (\<lambda>s. s + total_chapters cm recs u) (map_of t u)"
proof (induction recs arbitrary: t)
  case Nil
  then show ?case by (simp add: total_chapters_def option.map_ident)
next
  case (Cons e recs)
  obtain date obj where e: "e = (date, obj)" by (cases e)
  have d: "distinct (map fst obj)" and ds: "distinct_members recs"
    using Cons.prems by (simp_all add: distinct_members_def e)
  have "map_of (foldl (add_date_counts cm) (add_date_counts cm t (date, obj)) recs) u =
        map_option (\<lambda>s. s + total_chapters cm recs u) (map_of (add_date_counts cm t (date, obj)) u)"
    using ds by (rule Cons.IH)
  then show ?case
    by (cases "map_of t u") (simp_all add: e map_of_add_date_counts [OF d] total_chapters_def)
qed

lemma distinct_add_dates:
  "distinct (map fst t) \<Longrightarrow> distinct (map fst (foldl (add_date_counts cm) t recs))"
  by (induction recs arbitrary: t) (auto simp: distinct_add_date_counts)

lemma map_of_counted_totals:
  "distinct_members recs \<Longrightarrow> ''__proto__'' \<notin> set us \<Longrightarrow>
   map_of (counted_totals cm us recs) u =
     (if u \<in> set us then Some (total_chapters cm recs u) else None)"
  by (simp add: counted_totals_def map_of_add_dates map_of_init_totals)

lemma distinct_counted_totals: "distinct (map fst (counted_totals cm us recs))"
  by (simp add: counted_totals_def distinct_add_dates distinct_init_totals)

lemma keys_add_count: "fst ` set (add_count t e) = fst ` set t"
  by (cases e) (auto simp: add_count_def split: option.splits dest: map_of_SomeD intro: rev_image_eqI)

lemma keys_add_counts: "fst ` set (foldl add_count t obj) = fst ` set t"
  by (induction obj arbitrary: t) (simp_all add: keys_add_count)

lemma keys_add_date_counts: "fst ` set (add_date_counts cm t e) = fst ` set t"
  by (cases e) (simp add: add_date_counts_def keys_add_counts)

lemma keys_add_dates: "fst ` set (foldl (add_date_counts cm) t recs) = fst ` set t"
  by (induction recs arbitrary: t) (simp_all add: keys_add_date_counts)

lemma keys_counted_totals_subset: "fst ` set (counted_totals cm us recs) \<subseteq> set us"
  by (simp add: counted_totals_def keys_add_dates keys_init_totals_subset)

lemma keys_counted_totals:
  "''__proto__'' \<notin> set us \<Longrightarrow> fst ` set (counted_totals cm us recs) = set us"
  by (simp add: counted_totals_def keys_add_dates keys_init_totals)

subsection \<open>The loops and their exception\<close>

lemma no_own_property: "k \<notin> fst ` set obj \<Longrightarrow> map_of obj k = None"
  by (simp add: map_of_eq_None_iff)

lemma add_entry_returns:
  "map_of t ''hasOwnProperty'' = None \<Longrightarrow> add_entry t e = Inr (add_count t e)"
  by (simp add: add_entry_def)

lemma add_entry_returned: "add_entry t e = Inr t' \<Longrightarrow> t' = add_count t e"
  by (auto simp: add_entry_def split: option.splits)

lemma add_entries_return:
  "map_of t ''hasOwnProperty'' = None \<Longrightarrow> fold_err add_entry t obj = Inr (foldl add_count t obj)"
proof (induction obj arbitrary: t)
  case Nil
  then show ?case by simp
next
  case (Cons e obj)
  have "''hasOwnProperty'' \<notin> fst ` set (add_count t e)"
    using Cons.prems by (simp add: keys_add_count map_of_eq_None_iff)
  then have "map_of (add_count t e) ''hasOwnProperty'' = None" by (rule no_own_property)
  then have "fold_err add_entry (add_count t e) obj = Inr (foldl add_count (add_count t e) obj)"
    by (rule Cons.IH)
  then show ?case using add_entry_returns [OF Cons.prems] by simp
qed

lemma add_entries_returned:
  "fold_err add_entry t obj = Inr t' \<Longrightarrow> t' = foldl add_count t obj"
proof (induction obj arbitrary: t)
  case Nil
  then show ?case by simp
next
  case (Cons e obj)
  then show ?case by (auto split: sum.splits dest: add_entry_returned)
qed

lemma add_date_returns:
  "map_of t ''hasOwnProperty'' = None \<Longrightarrow> add_date cm t e = Inr (add_date_counts cm t e)"
  by (cases e) (simp add: add_date_def add_date_counts_def add_entries_return)

lemma add_date_returned: "add_date cm t e = Inr t' \<Longrightarrow> t' = add_date_counts cm t e"
  by (cases e) (auto simp: add_date_def add_date_counts_def add_entries_returned split: if_splits)

lemma add_dates_return:
  "map_of t ''hasOwnProperty'' = None \<Longrightarrow>
   fold_err (add_date cm) t recs = Inr (foldl (add_date_counts cm) t recs)"
proof (induction recs arbitrary: t)
  case Nil
  then show ?case by simp
next
  case (Cons e recs)
  have "''hasOwnProperty'' \<notin> fst ` set (add_date_counts cm t e)"
    using Cons.prems by (simp add: keys_add_date_counts map_of_eq_None_iff)
  then have "map_of (add_date_counts cm t e) ''hasOwnProperty'' = None" by (rule no_own_property)
  then have "fold_err (add_date cm) (add_date_counts cm t e) recs
             = Inr (foldl (add_date_counts cm) (add_date_counts cm t e) recs)"
    by (rule Cons.IH)
  then show ?case using Cons.prems by (simp add: add_date_returns)
qed

lemma add_dates_returned:
  "fold_err (add_date cm) t recs = Inr t' \<Longrightarrow> t' = foldl (add_date_counts cm) t recs"
proof (induction recs arbitrary: t)
  case Nil
  then show ?case by simp
next
  case (Cons e recs)
  then show ?case by (auto split: sum.splits dest: add_date_returned)
qed

lemma monthly_totals_return:
  "''hasOwnProperty'' \<notin> set us \<Longrightarrow> monthly_totals cm us recs = Inr (counted_totals cm us recs)"
proof -
  assume "''hasOwnProperty'' \<notin> set us"
  then have "''hasOwnProperty'' \<notin> fst ` set (init_totals us)"
    using keys_init_totals_subset by blast
  then have "map_of (init_totals us) ''hasOwnProperty'' = None" by (rule no_own_property)
  then show ?thesis by (simp add: monthly_totals_def counted_totals_def add_dates_return)
qed

lemma monthly_totals_returned:
  "monthly_totals cm us recs = Inr totals \<Longrightarrow> totals = counted_totals cm us recs"
  by (simp add: monthly_totals_def counted_totals_def add_dates_returned)

subsection \<open>The rows\<close>

lemma calc_loop_returns:
  "walk_ends recs \<Longrightarrow> time_in_range t \<Longrightarrow> \<exists>n. calc_loop z recs u c t = Inr n"
proof (induction z recs u c t rule: calc_loop.induct)
  case (1 z recs u c t)
  show ?case
  proof (cases "has_truthy_entry recs (iso_date (t div 1440)) u")
    case False
    with "1.prems" show ?thesis by (subst calc_loop.simps) simp
  next
    case True
    define q where "q = t div 1440"
    have "map_of recs (iso_date q) \<noteq> None"
      using True by (auto simp: has_truthy_entry_def q_def split: option.splits)
    then have "q \<noteq> - 100000000" "q \<noteq> - 99999999"
      using "1.prems"(1) by (auto simp: walk_ends_def)
    moreover have "- 100000000 \<le> q"
    proof -
      have "(- 144000000000) div 1440 \<le> t div (1440::int)"
        using "1.prems"(2) by (intro zdiv_mono1) (simp_all add: time_in_range_def)
      then show ?thesis by (simp add: q_def)
    qed
    ultimately have "- 99999998 \<le> q" by simp
    moreover have "1440 * q \<le> t"
    proof -
      define r where "r = t mod 1440"
      have "q * 1440 + r = t" unfolding q_def r_def by (rule div_mult_mod_eq)
      moreover have "0 \<le> r" unfolding r_def by simp
      ultimately show ?thesis by linarith
    qed
    ultimately have "- 143999997120 \<le> t" by simp
    then have "time_in_range (setDate_previous z t)"
      using setDate_previous_bounds [where z = z and t = t] "1.prems"(2) by (simp add: time_in_range_def)
    with "1.IH" "1.prems" True obtain n
      where "calc_loop z recs u (c + 1) (setDate_previous z t) = Inr n"
      by blast
    with "1.prems" True show ?thesis by (subst calc_loop.simps) simp
  qed
qed

lemma walk_ends_returns:
  "walk_ends recs \<Longrightarrow> time_in_range t \<Longrightarrow> \<exists>n. calculateConsecutiveDays z t u recs = Inr n"
  unfolding calculateConsecutiveDays_def by (rule calc_loop_returns)

lemma entries_to_rows_returns:
  "walk_ends recs \<Longrightarrow> time_in_range t \<Longrightarrow> \<exists>rows. entries_to_rows z t recs totals = Inr rows"
proof (induction totals)
  case Nil
  then show ?case by simp
next
  case (Cons e totals)
  obtain u k where e: "e = (u, k)" by (cases e)
  obtain n where "calculateConsecutiveDays z t u recs = Inr n"
    using walk_ends_returns Cons.prems by blast
  moreover obtain rows where "entries_to_rows z t recs totals = Inr rows"
    using Cons by blast
  ultimately show ?case by (simp add: e)
qed

lemma entries_to_rows_fields:
  "entries_to_rows z t recs totals = Inr rows \<Longrightarrow> map (\<lambda>r. (user r, total r)) rows = totals"
proof (induction totals arbitrary: rows)
  case Nil
  then show ?case by simp
next
  case (Cons e totals)
  then show ?case by (cases e) (auto split: sum.splits)
qed

lemma monthlyStats_rows:
  assumes "monthlyStats z t us recs = Inr rows"
  shows "\<exists>rows0. rows = sort_key (\<lambda>r. - total r) rows0 \<and>
           map (\<lambda>r. (user r, total r)) rows0 =
             counted_totals (getMonthFromDateString (getTodayDateString (t div 1440))) us recs"
proof -
  let ?cm = "getMonthFromDateString (getTodayDateString (t div 1440))"
  obtain totals where m: "monthly_totals ?cm us recs = Inr totals"
    using assms by (auto simp: monthlyStats_def Let_def split: sum.splits)
  then obtain rows0 where e: "entries_to_rows z t recs totals = Inr rows0"
    and r: "rows = sort_key (\<lambda>r. - total r) rows0"
    using assms by (auto simp: monthlyStats_def Let_def split: sum.splits)
  have "totals = counted_totals ?cm us recs" using m by (rule monthly_totals_returned)
  with entries_to_rows_fields [OF e] r show ?thesis by blast
qed

text \<open>Every row of a report carries the name of a member.\<close>

lemma monthlyStats_users:
  assumes "monthlyStats z t us recs = Inr rows"
  shows "user ` set rows \<subseteq> set us"
proof -
  let ?cm = "getMonthFromDateString (getTodayDateString (t div 1440))"
  obtain rows0 where r: "rows = sort_key (\<lambda>r. - total r) rows0"
    and m: "map (\<lambda>r. (user r, total r)) rows0 = counted_totals ?cm us recs"
    using monthlyStats_rows [OF assms] by blast
  have "user ` set rows0 = fst ` set (map (\<lambda>r. (user r, total r)) rows0)"
    by (simp add: image_image)
  also have "\<dots> \<subseteq> set us" by (simp only: m keys_counted_totals_subset)
  finally show ?thesis by (simp add: r)
qed

text \<open>
  Claim C4. The monthly report has exactly one row for each member of the store; the
  total of a member's row is the sum of the member's entries over the dates of the
  month, 0 for a member with none; and the rows are in descending order of their
  totals. The month is the current month, the only one for which the source computes
  a report. The hypotheses: no member is called \<^verbatim>\<open>hasOwnProperty\<close> or \<^verbatim>\<open>__proto__\<close>
  (the first makes the report throw a \<^verbatim>\<open>TypeError\<close>, the second gets no row); the
  stored counts are integers in the range in which the source's additions are exact;
  the clock is in the range of \<^verbatim>\<open>Date\<close> and the records hold nothing on the first two
  days of that range; and the per-date objects have distinct keys.
\<close>

theorem monthly_report_rows:
  assumes "''hasOwnProperty'' \<notin> set us" and "''__proto__'' \<notin> set us"
    and "safe_integers recs" and "distinct_members recs"
    and "time_in_range t" and "walk_ends recs"
  shows "\<exists>rows. monthlyStats z t us recs = Inr rows
           \<and> distinct (map user rows) \<and> set (map user rows) = set us
           \<and> (\<forall>r \<in> set rows.
                 total r = total_chapters (getMonthFromDateString (getTodayDateString (t div 1440)))
                             recs (user r))
           \<and> sorted_wrt (\<lambda>a b. total b \<le> total a) rows"
proof -
  let ?cm = "getMonthFromDateString (getTodayDateString (t div 1440))"
  let ?totals = "counted_totals ?cm us recs"
  have mt: "monthly_totals ?cm us recs = Inr ?totals"
    using assms(1) by (rule monthly_totals_return)
  obtain rows0 where e: "entries_to_rows z t recs ?totals = Inr rows0"
    using entries_to_rows_returns [OF assms(6) assms(5)] by blast
  let ?rows = "sort_key (\<lambda>r. - total r) rows0"
  have ms: "monthlyStats z t us recs = Inr ?rows"
    by (simp add: monthlyStats_def Let_def mt e)
  have fields: "map (\<lambda>r. (user r, total r)) rows0 = ?totals"
    using e by (rule entries_to_rows_fields)
  have "map user rows0 = map fst (map (\<lambda>r. (user r, total r)) rows0)" by simp
  then have users0: "map user rows0 = map fst ?totals" by (simp only: fields)
  then have "distinct (map user rows0)" by (simp add: distinct_counted_totals)
  then have d: "distinct (map user ?rows)" by (simp add: distinct_map)
  have "set (map user rows0) = set us"
    using users0 keys_counted_totals [OF assms(2)] by simp
  then have s: "set (map user ?rows) = set us" by simp
  have t: "\<forall>r \<in> set ?rows. total r = total_chapters ?cm recs (user r)"
  proof
    fix r assume "r \<in> set ?rows"
    then have r0: "r \<in> set rows0" by simp
    then have "(user r, total r) \<in> set (map (\<lambda>r. (user r, total r)) rows0)" by force
    then have "(user r, total r) \<in> set ?totals" by (simp only: fields)
    then have "map_of ?totals (user r) = Some (total r)"
      using distinct_counted_totals by (simp add: map_of_eq_Some_iff)
    then show "total r = total_chapters ?cm recs (user r)"
      by (simp add: map_of_counted_totals [OF assms(4) assms(2)] split: if_splits)
  qed
  have "sorted (map (\<lambda>r. - total r) ?rows)" by (rule sorted_sort_key)
  then have o: "sorted_wrt (\<lambda>a b. total b \<le> total a) ?rows" by (simp add: sorted_map)
  from ms d s t o show ?thesis by blast
qed

subsection \<open>Orphan entries\<close>

lemma map_of_filter_keys:
  "map_of (filter (\<lambda>(k, v). P k) xs) k = (if P k then map_of xs k else None)"
  by (induction xs) auto

lemma map_of_without_orphans:
  "map_of (without_orphans us recs) date =
     map_option (filter (\<lambda>(u, n). u \<in> set us)) (map_of recs date)"
  by (induction recs) (auto simp: without_orphans_def)

lemma has_truthy_entry_without_orphans:
  "u \<in> set us \<Longrightarrow> has_truthy_entry (without_orphans us recs) date u = has_truthy_entry recs date u"
  by (cases "map_of recs date")
     (simp_all add: has_truthy_entry_def map_of_without_orphans map_of_filter_keys)

lemma calc_loop_cong:
  "(\<And>date. has_truthy_entry recs' date u = has_truthy_entry recs date u) \<Longrightarrow>
   calc_loop z recs' u c t = calc_loop z recs u c t"
proof (induction z recs u c t rule: calc_loop.induct)
  case (1 z recs u c t)
  show ?case
  proof (cases "time_in_range t \<and> has_truthy_entry recs (iso_date (t div 1440)) u")
    case True
    then have "calc_loop z recs' u (c + 1) (setDate_previous z t)
               = calc_loop z recs u (c + 1) (setDate_previous z t)"
      using "1.IH" "1.prems" by simp
    with True "1.prems" show ?thesis
      by (subst calc_loop.simps, subst (2) calc_loop.simps) simp
  next
    case False
    with "1.prems" show ?thesis
      by (subst calc_loop.simps, subst (2) calc_loop.simps) auto
  qed
qed

lemma calculateConsecutiveDays_without_orphans:
  "u \<in> set us \<Longrightarrow>
   calculateConsecutiveDays z t u (without_orphans us recs) = calculateConsecutiveDays z t u recs"
  unfolding calculateConsecutiveDays_def
  by (rule calc_loop_cong) (rule has_truthy_entry_without_orphans)

lemma add_count_orphan: "fst e \<notin> fst ` set t \<Longrightarrow> add_count t e = t"
  by (cases e) (auto simp: add_count_def split: option.splits dest: map_of_SomeD intro: rev_image_eqI)

lemma add_counts_without_orphans:
  "fst ` set t \<subseteq> set us \<Longrightarrow>
   foldl add_count t (filter (\<lambda>(u, n). u \<in> set us) obj) = foldl add_count t obj"
proof (induction obj arbitrary: t)
  case Nil
  then show ?case by simp
next
  case (Cons e obj)
  have keys: "fst ` set (add_count t e) \<subseteq> set us"
    using Cons.prems by (simp add: keys_add_count)
  show ?case
  proof (cases "fst e \<in> set us")
    case True
    with Cons.IH [OF keys] show ?thesis by (cases e) simp
  next
    case False
    with Cons.prems have "add_count t e = t" by (intro add_count_orphan) auto
    with False Cons.IH [OF Cons.prems] show ?thesis by (cases e) simp
  qed
qed

lemma add_dates_without_orphans:
  "fst ` set t \<subseteq> set us \<Longrightarrow>
   foldl (add_date_counts cm) t (without_orphans us recs) = foldl (add_date_counts cm) t recs"
proof (induction recs arbitrary: t)
  case Nil
  then show ?case by (simp add: without_orphans_def)
next
  case (Cons e recs)
  obtain date obj where e: "e = (date, obj)" by (cases e)
  have same: "add_date_counts cm t (date, filter (\<lambda>(u, n). u \<in> set us) obj) = add_date_counts cm t (date, obj)"
    using Cons.prems by (simp add: add_date_counts_def add_counts_without_orphans)
  have "fst ` set (add_date_counts cm t (date, obj)) \<subseteq> set us"
    using Cons.prems by (simp add: keys_add_date_counts)
  then have "foldl (add_date_counts cm) (add_date_counts cm t (date, obj)) (without_orphans us recs)
             = foldl (add_date_counts cm) (add_date_counts cm t (date, obj)) recs"
    by (rule Cons.IH)
  then show ?case
    using same by (simp add: e without_orphans_def)
qed

lemma counted_totals_without_orphans:
  "counted_totals cm us (without_orphans us recs) = counted_totals cm us recs"
  unfolding counted_totals_def
  by (rule add_dates_without_orphans) (rule keys_init_totals_subset)

lemma entries_to_rows_without_orphans:
  "fst ` set totals \<subseteq> set us \<Longrightarrow>
   entries_to_rows z t (without_orphans us recs) totals = entries_to_rows z t recs totals"
proof (induction totals)
  case Nil
  then show ?case by simp
next
  case (Cons e totals)
  obtain u k where e: "e = (u, k)" by (cases e)
  have ih: "entries_to_rows z t (without_orphans us recs) totals = entries_to_rows z t recs totals"
    using Cons by simp
  have c: "calculateConsecutiveDays z t u (without_orphans us recs)
           = calculateConsecutiveDays z t u recs"
    using Cons.prems e by (simp add: calculateConsecutiveDays_without_orphans)
  show ?case by (simp only: e entries_to_rows.simps ih c)
qed

text \<open>
  Claim C10. Entries under names that are not members are ignored by the monthly
  report: the report is the one computed from the records without those entries, and
  no row of it carries a name that is not a member. The hypotheses: no member is
  called \<^verbatim>\<open>hasOwnProperty\<close> (with such a member \<^verbatim>\<open>totals.hasOwnProperty\<close> is a number,
  and the report throws a \<^verbatim>\<open>TypeError\<close> at the first entry of the month, an orphan
  entry included), and the stored counts are integers in the range in which the
  source's additions are exact.
\<close>

theorem monthly_report_ignores_orphans:
  assumes "''hasOwnProperty'' \<notin> set us" and "safe_integers recs"
  shows "monthlyStats z t us (without_orphans us recs) = monthlyStats z t us recs
       \<and> (\<forall>rows. monthlyStats z t us recs = Inr rows \<longrightarrow> user ` set rows \<subseteq> set us)"
proof
  let ?cm = "getMonthFromDateString (getTodayDateString (t div 1440))"
  have keys: "fst ` set (counted_totals ?cm us recs) \<subseteq> set us"
    by (rule keys_counted_totals_subset)
  have "monthly_totals ?cm us (without_orphans us recs) = Inr (counted_totals ?cm us recs)"
    using monthly_totals_return [OF assms(1)] by (simp add: counted_totals_without_orphans)
  moreover have "monthly_totals ?cm us recs = Inr (counted_totals ?cm us recs)"
    using assms(1) by (rule monthly_totals_return)
  ultimately show "monthlyStats z t us (without_orphans us recs) = monthlyStats z t us recs"
    using keys by (simp add: monthlyStats_def Let_def entries_to_rows_without_orphans)
  show "\<forall>rows. monthlyStats z t us recs = Inr rows \<longrightarrow> user ` set rows \<subseteq> set us"
    using monthlyStats_users by blast
qed

subsection \<open>The example of the specification\<close>

lemma walk_ends_example: "walk_ends example_records"
  by (simp add: walk_ends_def first_days_of_range example_records_def)

lemma distinct_members_example: "distinct_members example_records"
  by (simp add: distinct_members_def example_records_def)

lemma safe_integers_example: "safe_integers example_records"
  by (simp add: safe_integers_def example_records_def)

lemma example_streak: "calculateConsecutiveDays utc 28576800 ''A'' example_records = Inr 2"
  by code_simp

lemma example_report:
  "monthlyStats utc 28576800 [''A'', ''B''] example_records =
     Inr [\<lparr>user = ''A'', total = 5, consecutiveDays = 2\<rparr>,
          \<lparr>user = ''B'', total = 1, consecutiveDays = 1\<rparr>]"
  by code_simp

lemma example_report_with_orphan:
  "monthlyStats utc 28576800 [''A''] example_records =
     Inr [\<lparr>user = ''A'', total = 5, consecutiveDays = 2\<rparr>]"
  by code_simp

text \<open>The members that the hypotheses of C4 and C10 exclude: a member called
  \<^verbatim>\<open>hasOwnProperty\<close> makes the report of a month with an entry throw, and a member
  called \<^verbatim>\<open>__proto__\<close> has no row.\<close>

lemma report_with_prototype_names:
  "monthlyStats utc 28576800 [''hasOwnProperty''] [(''2024-05-02'', [(''B'', 1)])] = Inl TypeError"
  "monthlyStats utc 28576800 [''hasOwnProperty''] (without_orphans [''hasOwnProperty'']
     [(''2024-05-02'', [(''B'', 1)])])
     = Inr [\<lparr>user = ''hasOwnProperty'', total = 0, consecutiveDays = 1\<rparr>]"
  "monthlyStats utc 28576800 [''__proto__''] [] = Inr []"
  by code_simp+

theorem monthly_report_rows_witness:
  "''hasOwnProperty'' \<notin> set [''A'', ''B''] \<and> ''__proto__'' \<notin> set [''A'', ''B'']
   \<and> safe_integers example_records \<and> distinct_members example_records
   \<and> time_in_range 28576800 \<and> walk_ends example_records
   \<and> (\<exists>rows. monthlyStats utc 28576800 [''A'', ''B''] example_records = Inr rows
           \<and> distinct (map user rows) \<and> set (map user rows) = set [''A'', ''B'']
           \<and> (\<forall>r \<in> set rows.
                 total r = total_chapters (getMonthFromDateString (getTodayDateString (28576800 div 1440)))
                             example_records (user r))
           \<and> sorted_wrt (\<lambda>a b. total b \<le> total a) rows)"
proof -
  have n: "''hasOwnProperty'' \<notin> set [''A'', ''B'']" "''__proto__'' \<notin> set [''A'', ''B'']"
    by simp_all
  have r: "time_in_range 28576800" by (simp add: time_in_range_def)
  from monthly_report_rows [OF n safe_integers_example distinct_members_example r
      walk_ends_example, of utc]
    n r safe_integers_example walk_ends_example distinct_members_example
  show ?thesis by blast
qed

theorem monthly_report_ignores_orphans_witness:
  "''hasOwnProperty'' \<notin> set [''A''] \<and> safe_integers example_records
   \<and> ''B'' \<notin> set [''A''] \<and> entry_of example_records ''2024-05-02'' ''B'' = Some 1
   \<and> monthlyStats utc 28576800 [''A''] (without_orphans [''A''] example_records)
       = Inr [\<lparr>user = ''A'', total = 5, consecutiveDays = 2\<rparr>]
   \<and> user ` set [\<lparr>user = ''A'', total = 5, consecutiveDays = 2\<rparr>] \<subseteq> set [''A'']"
proof -
  have n: "''hasOwnProperty'' \<notin> set [''A'']" by simp
  have a: "''B'' \<notin> set [''A'']" by simp
  have b: "entry_of example_records ''2024-05-02'' ''B'' = Some 1"
    by (simp add: entry_of_def example_records_def)
  note t = monthly_report_ignores_orphans [OF n safe_integers_example, of utc 28576800]
  have c: "monthlyStats utc 28576800 [''A''] (without_orphans [''A''] example_records)
       = Inr [\<lparr>user = ''A'', total = 5, consecutiveDays = 2\<rparr>]"
    using t example_report_with_orphan by simp
  have d: "user ` set [\<lparr>user = ''A'', total = 5, consecutiveDays = 2\<rparr>] \<subseteq> set [''A'']"
    using t example_report_with_orphan by blast
  from n safe_integers_example a b c d show ?thesis by blast
qed

section \<open>Removing a member\<close>

lemma nth_update_cases: "h[a := v] ! b = (if b = a \<and> a < length h then v else h ! b)"
  by (cases "a < length h") (auto simp: nth_list_update list_update_beyond)

lemma length_remove_from_date [simp]:
  "length (remove_from_date recs name h date) = length h"
  by (simp add: remove_from_date_def split: option.splits)

lemma remove_from_date_keeps_none:
  "map_of (h ! b) name = None \<Longrightarrow> map_of (remove_from_date recs name h date ! b) name = None"
  by (simp add: remove_from_date_def nth_update_cases delete_conv' split: option.splits)

lemma remove_from_date_keeps_nonzero:
  "map_of (h ! b) name \<noteq> Some 0 \<Longrightarrow>
   map_of (remove_from_date recs name h date ! b) name \<noteq> Some 0"
  by (simp add: remove_from_date_def nth_update_cases delete_conv' split: option.splits)

lemma remove_from_date_hits:
  "map_of recs date = Some a \<Longrightarrow> a < length h \<Longrightarrow> map_of (h ! a) name \<noteq> Some 0 \<Longrightarrow>
   map_of (remove_from_date recs name h date ! a) name = None"
  by (simp add: remove_from_date_def nth_update_cases delete_conv' split: option.splits)

lemma length_remove_from_dates [simp]:
  "length (foldl (remove_from_date recs name) h ds) = length h"
  by (induction ds arbitrary: h) simp_all

lemma remove_from_dates_keeps_none:
  "map_of (h ! b) name = None \<Longrightarrow>
   map_of (foldl (remove_from_date recs name) h ds ! b) name = None"
  by (induction ds arbitrary: h) (simp_all add: remove_from_date_keeps_none)

lemma remove_from_dates_hits:
  "date \<in> set ds \<Longrightarrow> map_of recs date = Some a \<Longrightarrow> a < length h \<Longrightarrow>
   map_of (h ! a) name \<noteq> Some 0 \<Longrightarrow>
   map_of (foldl (remove_from_date recs name) h ds ! a) name = None"
proof (induction ds arbitrary: h)
  case Nil
  then show ?case by simp
next
  case (Cons d ds)
  show ?case
  proof (cases "d = date")
    case True
    have "map_of (remove_from_date recs name h date ! a) name = None"
      using Cons.prems by (simp add: remove_from_date_hits)
    then show ?thesis
      using True by (simp add: remove_from_dates_keeps_none)
  next
    case False
    with Cons.prems have "date \<in> set ds" by simp
    moreover have "a < length (remove_from_date recs name h d)" using Cons.prems by simp
    moreover have "map_of (remove_from_date recs name h d ! a) name \<noteq> Some 0"
      using Cons.prems by (simp add: remove_from_date_keeps_nonzero)
    ultimately have "map_of (foldl (remove_from_date recs name) (remove_from_date recs name h d) ds ! a)
                       name = None"
      using Cons.prems(2) by (intro Cons.IH)
    then show ?thesis by simp
  qed
qed

text \<open>
  Claim C6. After the removal of a member the name is no longer in the member list, no
  per-date object of the resulting store has a property for the name, and no monthly
  report over the resulting store has a row for it. (The heap is well formed, and no
  stored count of the member is 0: the data model stores counts of at least 1, and
  the source deletes an entry only when its count is truthy.)
\<close>

theorem remove_member_removes_everything:
  assumes "wf_app app"
    and "\<forall>date. entry_of (store_view app) date name \<noteq> Some 0"
  shows "name \<notin> set (users (snd (handleRemoveUser True name app)))
       \<and> (\<forall>date. entry_of (store_view (handleRemoveUser True name app)) date name = None)
       \<and> (\<forall>z t rows.
             monthlyStats z t (users (snd (handleRemoveUser True name app)))
               (store_view (handleRemoveUser True name app)) = Inr rows
             \<longrightarrow> name \<notin> user ` set rows)"
proof -
  obtain h d where app: "app = (h, d)" by (cases app)
  let ?recs = "records d"
  let ?h' = "foldl (remove_from_date ?recs name) h (map fst ?recs)"
  let ?app' = "handleRemoveUser True name app"
  have app': "?app' = (?h', \<lparr>users = filter (\<lambda>u. u \<noteq> name) (users d), records = ?recs\<rparr>)"
    by (simp add: app handleRemoveUser_def Let_def)
  have gone_at: "map_of (?h' ! a) name = None" if m: "map_of ?recs date = Some a" for date a
  proof -
    have "entry_of (store_view app) date name \<noteq> Some 0" using assms(2) by blast
    then have "map_of (h ! a) name \<noteq> Some 0"
      using m by (simp add: app store_view_def entry_of_def map_of_deref)
    moreover have "a < length h" using assms(1) app m wf_app_address by simp
    moreover have "date \<in> set (map fst ?recs)" using m by (force dest: map_of_SomeD)
    ultimately show ?thesis using m by (intro remove_from_dates_hits)
  qed
  have users: "name \<notin> set (users (snd ?app'))" by (simp add: app')
  have gone: "\<forall>date. entry_of (store_view ?app') date name = None"
  proof
    fix date
    show "entry_of (store_view ?app') date name = None"
    proof (cases "map_of ?recs date")
      case None
      then show ?thesis by (simp add: app' store_view_def entry_of_def map_of_deref)
    next
      case (Some a)
      then have "map_of (?h' ! a) name = None" by (rule gone_at)
      then show ?thesis using Some by (simp add: app' store_view_def entry_of_def map_of_deref)
    qed
  qed
  have rows: "\<forall>z t rows. monthlyStats z t (users (snd ?app')) (store_view ?app') = Inr rows
                \<longrightarrow> name \<notin> user ` set rows"
    using monthlyStats_users users by blast
  from users gone rows show ?thesis by blast
qed

theorem remove_member_removes_everything_witness:
  "wf_app example_app
   \<and> ''A'' \<in> set (users (snd example_app))
   \<and> entry_of (store_view example_app) ''2024-05-01'' ''A'' = Some 3
   \<and> ''A'' \<notin> set (users (snd (handleRemoveUser True ''A'' example_app)))
   \<and> entry_of (store_view (handleRemoveUser True ''A'' example_app)) ''2024-05-01'' ''A'' = None"
proof -
  have v: "store_view example_app = [(''2024-05-01'', [(''A'', 3)])]"
    by (simp add: store_view_def deref_def example_app_def)
  have nz: "\<forall>date. entry_of (store_view example_app) date ''A'' \<noteq> Some 0"
    by (simp add: v entry_of_def)
  have m: "''A'' \<in> set (users (snd example_app))" by (simp add: example_app_def)
  have e: "entry_of (store_view example_app) ''2024-05-01'' ''A'' = Some 3"
    by (simp add: v entry_of_def)
  from remove_member_removes_everything [OF wf_example_app nz] wf_example_app m e
  show ?thesis by blast
qed


subsection \<open>Every handler keeps the heap well formed\<close>

lemma distinct_remove_from_date:
  "\<forall>obj \<in> set h. distinct (map fst obj) \<Longrightarrow>
   \<forall>obj \<in> set (remove_from_date recs name h date). distinct (map fst obj)"
proof -
  assume d: "\<forall>obj \<in> set h. distinct (map fst obj)"
  have "\<forall>obj \<in> set (h[a := AList.delete name (h ! a)]). distinct (map fst obj)" for a
  proof (cases "a < length h")
    case True
    then have "distinct (map fst (h ! a))" using d by simp
    then have "distinct (map fst (AList.delete name (h ! a)))" by (rule distinct_delete)
    then show ?thesis using d set_update_subset_insert [of h a] by fastforce
  next
    case False
    then show ?thesis using d by (simp add: list_update_beyond)
  qed
  then show ?thesis using d by (simp add: remove_from_date_def split: option.splits)
qed

lemma distinct_remove_from_dates:
  "\<forall>obj \<in> set h. distinct (map fst obj) \<Longrightarrow>
   \<forall>obj \<in> set (foldl (remove_from_date recs name) h ds). distinct (map fst obj)"
proof (induction ds arbitrary: h)
  case Nil
  then show ?case by simp
next
  case (Cons d ds)
  have "\<forall>obj \<in> set (remove_from_date recs name h d). distinct (map fst obj)"
    using Cons.prems by (rule distinct_remove_from_date)
  then show ?case using Cons.IH by simp
qed

lemma wf_app_handleRemoveUser:
  assumes "wf_app app"
  shows "wf_app (handleRemoveUser confirmed name app)"
proof -
  obtain h d where app: "app = (h, d)" by (cases app)
  have "\<forall>obj \<in> set (foldl (remove_from_date (records d) name) h (map fst (records d))).
          distinct (map fst obj)"
    using assms app by (intro distinct_remove_from_dates) (simp add: wf_app_def)
  then show ?thesis
    using assms by (simp add: app handleRemoveUser_def Let_def wf_app_def)
qed

lemma wf_app_handleAddUser: "wf_app app \<Longrightarrow> wf_app (snd (handleAddUser name app))"
  by (cases app) (simp add: handleAddUser_def wf_app_def)

text \<open>Adding a member does not touch the heap or the records.\<close>

lemma add_member_keeps_published_store:
  "fst (snd (handleAddUser name app)) = fst app
   \<and> records (snd (snd (handleAddUser name app))) = records (snd app)"
  by (cases app) (simp add: handleAddUser_def)

section \<open>The length of the backward walk\<close>

lemma wf_daily_check_ins: "wf_app (daily_check_ins first n)"
proof (induction n)
  case 0
  then show ?case by (simp add: wf_app_def)
next
  case (Suc n)
  then show ?case by (simp add: wf_app_handleCheckIn)
qed

lemma daily_check_ins_entries:
  "j < n \<Longrightarrow>
   has_truthy_entry (store_view (daily_check_ins first n)) (iso_date (first + int j)) ''A''"
proof (induction n)
  case 0
  then show ?case by simp
next
  case (Suc n)
  let ?app = "daily_check_ins first n"
  let ?today = "getTodayDateString (first + int n)"
  let ?prev = "case map_of (store_view ?app) ?today of None \<Rightarrow> [] | Some obj \<Rightarrow> obj"
  have v: "map_of (store_view (handleCheckIn (first + int n) ''A'' 1 ?app)) =
           (map_of (store_view ?app))(?today \<mapsto> obj_set ''A'' 1 ?prev)"
    using wf_daily_check_ins by (rule store_view_handleCheckIn)
  show ?case
  proof (cases "iso_date (first + int j) = ?today")
    case True
    then show ?thesis by (simp add: has_truthy_entry_def v)
  next
    case False
    then have "j \<noteq> n" by (auto simp: getTodayDateString_def)
    with Suc.prems have "j < n" by simp
    then have "has_truthy_entry (store_view ?app) (iso_date (first + int j)) ''A''"
      by (rule Suc.IH)
    with False show ?thesis by (simp add: has_truthy_entry_def v)
  qed
qed

lemma loop_iterations_streak:
  assumes "dst_periods z = []"
  shows "\<forall>k<N. has_truthy_entry recs (iso_date (t div 1440 - int k)) u \<Longrightarrow>
   - 144000000000 \<le> t - 1440 * int N \<Longrightarrow> t \<le> 144000000000 \<Longrightarrow>
   N + 1 \<le> loop_iterations z recs u t"
proof (induction N arbitrary: t)
  case 0
  then show ?case by (subst loop_iterations.simps) simp
next
  case (Suc N)
  have inr: "time_in_range t" using Suc.prems by (simp add: time_in_range_def)
  have here: "has_truthy_entry recs (iso_date (t div 1440)) u" using Suc.prems(1) by force
  have "\<forall>k<N. has_truthy_entry recs (iso_date ((t - 1440) div 1440 - int k)) u"
  proof (intro allI impI)
    fix k assume "k < N"
    then have "has_truthy_entry recs (iso_date (t div 1440 - int (Suc k))) u"
      using Suc.prems(1) by (meson Suc_less_eq)
    then show "has_truthy_entry recs (iso_date ((t - 1440) div 1440 - int k)) u"
      by (simp add: day_back algebra_simps)
  qed
  moreover have "- 144000000000 \<le> t - 1440 - 1440 * int N" "t - 1440 \<le> 144000000000"
    using Suc.prems by simp_all
  ultimately have "N + 1 \<le> loop_iterations z recs u (t - 1440)" by (rule Suc.IH)
  with inr here show ?case
    by (subst loop_iterations.simps) (simp add: setDate_previous_fixed [OF assms])
qed

text \<open>
  Claim C9 as stated fails: the source has no cap on the walk (\<^verbatim>\<open>while (true)\<close>, left
  only by \<^verbatim>\<open>break\<close>). After a century of daily check-ins, from 4 October 1924 to
  4 October 2024 (day 20000, whose midnight UTC is the time value 28800000), the walk
  of that day in UTC enters the loop body more than 36525 times, ten times the ten years
  of days that the claim names.
\<close>

theorem streak_walk_exceeds_century:
  "36525 < loop_iterations utc (store_view (daily_check_ins (- 16524) 36525)) ''A'' 28800000"
proof -
  have day: "28800000 div 1440 = (20000::int)" by simp
  have "\<forall>k<36525. has_truthy_entry (store_view (daily_check_ins (- 16524) 36525))
          (iso_date (28800000 div 1440 - int k)) ''A''"
  proof (intro allI impI)
    fix k :: nat assume k: "k < 36525"
    then have "36524 - k < 36525" by simp
    then have "has_truthy_entry (store_view (daily_check_ins (- 16524) 36525))
                 (iso_date (- 16524 + int (36524 - k))) ''A''"
      by (rule daily_check_ins_entries)
    moreover have "- 16524 + int (36524 - k) = 20000 - int k" using k by simp
    ultimately show "has_truthy_entry (store_view (daily_check_ins (- 16524) 36525))
                 (iso_date (28800000 div 1440 - int k)) ''A''" by (simp add: day)
  qed
  moreover have "- 144000000000 \<le> 28800000 - 1440 * int 36525" "(28800000::int) \<le> 144000000000"
    by simp_all
  moreover have "dst_periods utc = []" by (simp add: utc_def)
  ultimately have "36525 + 1 \<le> loop_iterations utc (store_view (daily_check_ins (- 16524) 36525))
                     ''A'' 28800000"
    by (intro loop_iterations_streak)
  then show ?thesis by simp
qed

lemma loop_iterations_of_result:
  "calc_loop z recs u c t = Inr n \<Longrightarrow> n + 1 = c + loop_iterations z recs u t"
proof (induction z recs u c t rule: calc_loop.induct)
  case (1 z recs u c t)
  show ?case
  proof (cases "time_in_range t")
    case False
    with "1.prems" show ?thesis by (subst (asm) calc_loop.simps) simp
  next
    case True
    show ?thesis
    proof (cases "has_truthy_entry recs (iso_date (t div 1440)) u")
      case False
      with True "1.prems" have "n = c" by (subst (asm) calc_loop.simps) simp
      with True False show ?thesis by (subst loop_iterations.simps) simp
    next
      case h: True
      with True "1.prems" have "calc_loop z recs u (c + 1) (setDate_previous z t) = Inr n"
        by (subst (asm) calc_loop.simps) simp
      with "1.IH" True h have "n + 1 = c + 1 + loop_iterations z recs u (setDate_previous z t)"
        by simp
      with True h show ?thesis by (subst loop_iterations.simps) simp
    qed
  qed
qed

text \<open>A step of the walk goes back by at least 23 hours (1380 minutes), so the walk
  leaves the range of \<^verbatim>\<open>Date\<close> in every time zone.\<close>

lemma walk_back: "(a - 1380) div 1380 = a div 1380 - (1::int)"
  using div_mult_self1 [of "1380::int" a "- 1"] by simp

lemma loop_iterations_bound:
  "time_in_range t \<Longrightarrow> loop_iterations z recs u t \<le> nat ((t + 144000000000) div 1380) + 2"
proof (induction z recs u t rule: loop_iterations.induct)
  case (1 z recs u t)
  show ?case
  proof (cases "has_truthy_entry recs (iso_date (t div 1440)) u")
    case False
    with "1.prems" show ?thesis by (subst loop_iterations.simps) simp
  next
    case True
    let ?t' = "setDate_previous z t"
    show ?thesis
    proof (cases "time_in_range ?t'")
      case r: True
      define q where "q = (t + 144000000000) div 1380"
      define q' where "q' = (?t' + 144000000000) div 1380"
      have "loop_iterations z recs u ?t' \<le> nat q' + 2"
        using "1.IH" "1.prems" True r by (simp add: q'_def)
      moreover have "q' \<le> q - 1"
      proof -
        have "?t' + 144000000000 \<le> t + 144000000000 - 1380"
          using setDate_previous_bounds [where z = z and t = t] by simp
        then have "(?t' + 144000000000) div 1380 \<le> (t + 144000000000 - 1380) div 1380"
          by (intro zdiv_mono1) simp_all
        then show ?thesis by (simp add: q_def q'_def walk_back)
      qed
      moreover have "0 \<le> q'"
        using r by (simp add: q'_def time_in_range_def pos_imp_zdiv_nonneg_iff)
      ultimately have "1 + loop_iterations z recs u ?t' \<le> nat q + 2" by linarith
      with "1.prems" True show ?thesis
        by (subst loop_iterations.simps) (simp add: q_def)
    next
      case False
      then have "loop_iterations z recs u ?t' = 1" by (subst loop_iterations.simps) simp
      with "1.prems" True show ?thesis by (subst loop_iterations.simps) simp
    qed
  qed
qed

lemma loop_iterations_bound_fixed:
  assumes "dst_periods z = []"
  shows "time_in_range t \<Longrightarrow>
         loop_iterations z recs u t \<le> nat ((t + 144000000000) div 1440) + 2"
proof (induction "nat (t + 144000000000)" arbitrary: t rule: less_induct)
  case less
  show ?case
  proof (cases "has_truthy_entry recs (iso_date (t div 1440)) u")
    case False
    with less.prems show ?thesis by (subst loop_iterations.simps) simp
  next
    case True
    have step: "setDate_previous z t = t - 1440" using assms by (rule setDate_previous_fixed)
    show ?thesis
    proof (cases "time_in_range (t - 1440)")
      case r: True
      define q where "q = (t + 144000000000) div 1440"
      have "nat (t - 1440 + 144000000000) < nat (t + 144000000000)"
        using r by (simp add: time_in_range_def)
      then have "loop_iterations z recs u (t - 1440)
                   \<le> nat ((t - 1440 + 144000000000) div 1440) + 2"
        using r by (rule less.hyps)
      moreover have "(t - 1440 + 144000000000) div 1440 = q - 1"
        using day_back [of "t + 144000000000"] by (simp add: q_def algebra_simps)
      moreover have "1 \<le> q"
      proof -
        have "1440 div 1440 \<le> (t + 144000000000) div (1440::int)"
          using r by (intro zdiv_mono1) (simp_all add: time_in_range_def)
        then show ?thesis by (simp add: q_def)
      qed
      ultimately have "1 + loop_iterations z recs u (t - 1440) \<le> nat q + 2" by simp
      with less.prems True step show ?thesis
        by (subst loop_iterations.simps) (simp add: q_def)
    next
      case False
      then have "loop_iterations z recs u (t - 1440) = 1" by (subst loop_iterations.simps) simp
      with less.prems True step show ?thesis by (subst loop_iterations.simps) simp
    qed
  qed
qed

text \<open>
  Claim C9, amended. The walk has no cap of its own. When it returns a streak it has
  entered the loop body once for each day that it counted and once more. In a time zone
  without daylight-saving time a member with entries on \<open>N\<close> consecutive days up to
  today costs at least \<open>N + 1\<close> iterations, and the only bound on the walk is the
  range of the platform's \<^verbatim>\<open>Date\<close>: one iteration for each day back to the first
  day of that range, \<open>10^8\<close> days before the epoch, and two more.
\<close>

theorem streak_walk_length:
  "(\<forall>n. calculateConsecutiveDays z t u recs = Inr n \<longrightarrow> loop_iterations z recs u t = n + 1)
   \<and> (\<forall>N. dst_periods z = []
          \<and> (\<forall>k<N. \<exists>n. entry_of recs (iso_date (t div 1440 - int k)) u = Some n \<and> 1 \<le> n)
          \<and> time_in_range t \<and> - 144000000000 \<le> t - 1440 * int N
          \<longrightarrow> N + 1 \<le> loop_iterations z recs u t)
   \<and> (dst_periods z = [] \<and> time_in_range t
          \<longrightarrow> loop_iterations z recs u t \<le> nat ((t + 144000000000) div 1440) + 2)"
proof (intro conjI allI impI)
  fix n assume "calculateConsecutiveDays z t u recs = Inr n"
  then show "loop_iterations z recs u t = n + 1"
    using loop_iterations_of_result [of z recs u 0 t n] by (simp add: calculateConsecutiveDays_def)
next
  fix N
  assume a: "dst_periods z = []
          \<and> (\<forall>k<N. \<exists>n. entry_of recs (iso_date (t div 1440 - int k)) u = Some n \<and> 1 \<le> n)
          \<and> time_in_range t \<and> - 144000000000 \<le> t - 1440 * int N"
  then have "\<forall>k<N. has_truthy_entry recs (iso_date (t div 1440 - int k)) u"
    using positive_entry_truthy by blast
  moreover have "- 144000000000 \<le> t - 1440 * int N" "t \<le> 144000000000" "dst_periods z = []"
    using a by (simp_all add: time_in_range_def)
  ultimately show "N + 1 \<le> loop_iterations z recs u t" by (intro loop_iterations_streak)
next
  assume "dst_periods z = [] \<and> time_in_range t"
  then show "loop_iterations z recs u t \<le> nat ((t + 144000000000) div 1440) + 2"
    using loop_iterations_bound_fixed by blast
qed

lemma autumn_walk:
  "calculateConsecutiveDays london_2024 28834590 ''A'' autumn_records = Inr 2"
  by code_simp

theorem streak_walk_length_witness:
  "calculateConsecutiveDays london_2024 28834590 ''A'' autumn_records = Inr 2
   \<and> loop_iterations london_2024 autumn_records ''A'' 28834590 = 3
   \<and> dst_periods utc = []
   \<and> entry_of example_records (iso_date (28576800 div 1440 - int 0)) ''A'' = Some 2
   \<and> entry_of example_records (iso_date (28576800 div 1440 - int 1)) ''A'' = Some 3
   \<and> 2 + 1 \<le> loop_iterations utc example_records ''A'' 28576800
   \<and> time_in_range 28576800
   \<and> loop_iterations utc example_records ''A'' 28576800
       \<le> nat ((28576800 + 144000000000) div 1440) + 2"
proof -
  have r: "time_in_range 28576800" by (simp add: time_in_range_def)
  have z: "dst_periods utc = []" by (simp add: utc_def)
  have e0: "entry_of example_records (iso_date (28576800 div 1440 - int 0)) ''A'' = Some 2"
    and e1: "entry_of example_records (iso_date (28576800 div 1440 - int 1)) ''A'' = Some 3"
    by (simp_all add: example_dates example_records_def entry_of_def)
  have all: "\<forall>k<2. \<exists>n. entry_of example_records (iso_date (28576800 div 1440 - int k)) ''A''
               = Some n \<and> 1 \<le> n"
  proof (intro allI impI)
    fix k :: nat assume "k < 2"
    then have "k = 0 \<or> k = 1" by auto
    then show "\<exists>n. entry_of example_records (iso_date (28576800 div 1440 - int k)) ''A''
                 = Some n \<and> 1 \<le> n"
      using e0 e1 by auto
  qed
  have a: "loop_iterations london_2024 autumn_records ''A'' 28834590 = 3"
    using streak_walk_length [of london_2024 28834590 "''A''" autumn_records] autumn_walk
    by simp
  note t = streak_walk_length [of utc 28576800 "''A''" example_records]
  have b: "2 + 1 \<le> loop_iterations utc example_records ''A'' 28576800"
  proof -
    have "- 144000000000 \<le> 28576800 - 1440 * int 2" by simp
    with t z all r show ?thesis by blast
  qed
  have c: "loop_iterations utc example_records ''A'' 28576800
             \<le> nat ((28576800 + 144000000000) div 1440) + 2"
    using t z r by blast
  from autumn_walk a z e0 e1 b r c show ?thesis by blast
qed

section \<open>The monthly chart, evaluated\<close>

text \<open>The example of the specification, read 8 hours east of UTC on 2 May 2024: 31 points,
  one member on day 1 and two on day 2.\<close>

lemma example_chart:
  "length (chartData 480 19845 example_records) = 31"
  "chartData 480 19845 example_records ! 0 = \<lparr>day = Some 1, count = 1\<rparr>"
  "chartData 480 19845 example_records ! 1 = \<lparr>day = Some 2, count = 2\<rparr>"
  "chartData 480 19845 example_records ! 30 = \<lparr>day = Some 31, count = 0\<rparr>"
  by code_simp+

text \<open>
  Claim C3 fails west of UTC. \<^verbatim>\<open>new Date(currentMonth)\<close> and \<^verbatim>\<open>new Date(date)\<close> are
  midnight UTC, and \<^verbatim>\<open>getFullYear\<close>, \<^verbatim>\<open>getMonth\<close> and \<^verbatim>\<open>getDate\<close> read them in local
  time, where it is still the evening before. Five hours west of UTC on 18 March 2024
  the chart of an empty store has the 29 points of February, not the 31 of March; and
  on 2 May 2024 the chart of the example has the 30 points of April, with the two
  check-ins of 2 May on day 1 and the check-in of 1 May on day 30.
\<close>

theorem chart_west_of_utc:
  "getMonthFromDateString (getTodayDateString 19800) = ''2024-03''
   \<and> days_in_month 2024 3 = 31
   \<and> length (chartData (- 300) 19800 []) = 29
   \<and> length (chartData (- 300) 19845 example_records) = 30
   \<and> chartData (- 300) 19845 example_records ! 0 = \<lparr>day = Some 1, count = 2\<rparr>
   \<and> chartData (- 300) 19845 example_records ! 29 = \<lparr>day = Some 30, count = 1\<rparr>"
  by code_simp

end
